theory Spec2Isabelle
  imports Main "HOL-Library.Char_ord" "HOL-Library.List_Lexorder"
    "HOL-Library.Product_Lexorder" "HOL-Library.Option_ord" "HOL-Library.AList"
    "HOL-Library.Multiset"
begin

section \<open>Python values and failures\<close>

text \<open>
  The exceptions that the modelled code of \<^verbatim>\<open>scancode/resource.py\<close> and
  \<^verbatim>\<open>scancode/plugin_merkle_tree.py\<close> can raise. \<open>RootRemoval\<close> is the
  plain \<^verbatim>\<open>Exception\<close> raised by \<^verbatim>\<open>remove_resource\<close> on the root;
  \<open>RuntimeError\<close> is the interpreter's "maximum recursion depth exceeded", which in
  the model is the end of the fuel of a recursive walk.
\<close>

datatype error =
    IndexError
  | AttributeError
  | ValueError
  | TypeError
  | RootRemoval
  | RuntimeError
  | FileLockTimeout

text \<open>
  The position that \<^verbatim>\<open>xs[i]\<close> denotes in a Python list: a negative index counts
  from the end, an index out of range raises \<^verbatim>\<open>IndexError\<close>.
\<close>

definition py_slot :: "'a list \<Rightarrow> int \<Rightarrow> error + nat" where
  "py_slot xs i =
     (if 0 \<le> i \<and> i < int (length xs) then Inr (nat i)
      else if i < 0 \<and> - int (length xs) \<le> i then Inr (nat (int (length xs) + i))
      else Inl IndexError)"

definition py_index :: "'a list \<Rightarrow> int \<Rightarrow> error + 'a" where
  "py_index xs i = (case py_slot xs i of Inl e \<Rightarrow> Inl e | Inr k \<Rightarrow> Inr (xs ! k))"

text \<open>
  A list comprehension or \<^verbatim>\<open>for\<close> loop whose body can raise: the first failure
  ends it.
\<close>

fun mapE :: "('a \<Rightarrow> error + 'b) \<Rightarrow> 'a list \<Rightarrow> error + 'b list" where
  "mapE f [] = Inr []"
| "mapE f (x # xs) =
     (case f x of
        Inl e \<Rightarrow> Inl e
      | Inr y \<Rightarrow> (case mapE f xs of Inl e \<Rightarrow> Inl e | Inr ys \<Rightarrow> Inr (y # ys)))"

section \<open>The registry of codebases\<close>

text \<open>
  \<^verbatim>\<open>_CODEBASES\<close> is a dict from integer ids to codebase objects: an association
  list with one pair per key. The type \<open>'c\<close> stands for the identity of a codebase
  object, so that equality on it is Python's \<^verbatim>\<open>is\<close>.
\<close>

type_synonym 'c registry = "(int \<times> 'c) list"

text \<open>
  \<^verbatim>\<open>
  def add_codebase(codebase, cache_lock_file=_cache_lock_file):
      try:
          with yg.lockfile.FileLock(cache_lock_file, timeout=10):
              global _CODEBASES
              if _CODEBASES:
                  for cid, cached_codebase in _CODEBASES.items():
                      if codebase is cached_codebase:
                          return cid
                  new_cid = max(_CODEBASES.viewkeys()) + 1
              else:
                  new_cid = 1
              _CODEBASES[new_cid] = codebase
              return new_cid
      except yg.lockfile.FileLockTimeout:
          raise
  \<close>
  Whether the file lock is obtained within its timeout is decided outside the program;
  it is the first argument.
\<close>

definition add_codebase :: "bool \<Rightarrow> 'c \<Rightarrow> 'c registry \<Rightarrow> error + (int \<times> 'c registry)" where
  "add_codebase locked codebase reg =
     (if \<not> locked then Inl FileLockTimeout
      else if reg \<noteq> [] then
        (case find (\<lambda>(cid, cached_codebase). codebase = cached_codebase) reg of
           Some (cid, cached_codebase) \<Rightarrow> Inr (cid, reg)
         | None \<Rightarrow>
             (let new_cid = Max (set (map fst reg)) + 1
              in Inr (new_cid, AList.update new_cid codebase reg)))
      else Inr (1, AList.update 1 codebase reg))"

text \<open>
  \<^verbatim>\<open>
  def del_codebase(cid, cache_lock_file=_cache_lock_file):
      try:
          with yg.lockfile.FileLock(cache_lock_file, timeout=10):
              global _CODEBASES
              return _CODEBASES.pop(cid, None)
      except yg.lockfile.FileLockTimeout:
          raise
  \<close>
\<close>

definition del_codebase :: "bool \<Rightarrow> int \<Rightarrow> 'c registry \<Rightarrow> error + ('c option \<times> 'c registry)" where
  "del_codebase locked cid reg =
     (if \<not> locked then Inl FileLockTimeout
      else Inr (map_of reg cid, AList.delete cid reg))"

definition get_codebase :: "int \<Rightarrow> 'c registry \<Rightarrow> 'c option" where
  "get_codebase cid reg = map_of reg cid"

text \<open>
  A run of the registry: the operations of a process, in order, each obtaining the
  lock. \<open>assigned\<close> lists the handles that \<^verbatim>\<open>add_codebase\<close> hands out to
  codebases that are not registered at that moment.
\<close>

datatype 'c reg_op = Register 'c | Unregister int

fun assigned :: "'c registry \<Rightarrow> 'c reg_op list \<Rightarrow> int list" where
  "assigned reg [] = []"
| "assigned reg (Register c # ops) =
     (case add_codebase True c reg of
        Inl e \<Rightarrow> []
      | Inr (h, reg') \<Rightarrow> (if c \<in> set (map snd reg) then [] else [h]) @ assigned reg' ops)"
| "assigned reg (Unregister h # ops) =
     (case del_codebase True h reg of
        Inl e \<Rightarrow> []
      | Inr (c, reg') \<Rightarrow> assigned reg' ops)"

section \<open>Resource and Codebase\<close>

text \<open>
  A scan mapping is an \<^verbatim>\<open>OrderedDict\<close>: an association list in insertion order.
  The values are opaque to this code; they are kept as their serialized text.
\<close>

type_synonym scans = "(string \<times> string) list"

text \<open>
  The attributes of \<^verbatim>\<open>Resource\<close> that the modelled operations read or write.
  The classification attributes (type, dates, checksums, flags) and the timings are
  set from outside and take no part in them; they are left out.
\<close>

record resource =
  name :: string
  rid :: int
  pid :: "int option"
  cid :: int
  is_file :: bool
  children_rids :: "int list"
  errors :: "string list"
  scans :: scans
  use_cache :: bool
  cache_keys :: "string \<times> string"
  size' :: int
  files_count :: int
  dirs_count :: int

text \<open>
  What a slot of \<^verbatim>\<open>Codebase.resources\<close> can hold: \<^verbatim>\<open>None\<close> after a
  removal, a \<^verbatim>\<open>Resource\<close>, or the bare integer that
  \<^verbatim>\<open>Resource.add_child\<close> appends.
\<close>

datatype entry = ENone | ERes resource | EInt int

text \<open>
  The codebase. A \<^verbatim>\<open>Resource\<close> object is identified with the slot of
  \<open>resources\<close> that holds it: a reference to a \<^verbatim>\<open>Resource\<close> is the index
  of its slot, a method of \<^verbatim>\<open>Resource\<close> takes the codebase (in place of
  \<^verbatim>\<open>self.codebase\<close>) and that index, and \<^verbatim>\<open>Codebase.root\<close> is slot 0,
  where \<^verbatim>\<open>populate\<close> puts the root. \<open>cache_files\<close> is the content of the
  codebase's own cache directory: the text of the files in it, keyed by the two cache
  keys of a resource (sub-directory and file name), one file per key.
\<close>

record codebase =
  resources :: "entry list"
  cb_is_file :: bool
  cb_use_cache :: bool
  cb_cid :: int
  cache_files :: "((string \<times> string) \<times> string) list"

text \<open>Attribute access on a slot's value: only a \<^verbatim>\<open>Resource\<close> has the attributes.\<close>

definition as_resource :: "entry \<Rightarrow> error + resource" where
  "as_resource e = (case e of ERes r \<Rightarrow> Inr r | _ \<Rightarrow> Inl AttributeError)"

definition deref :: "codebase \<Rightarrow> nat \<Rightarrow> error + resource" where
  "deref cb s =
     (if s < length (resources cb) then as_resource (resources cb ! s) else Inl AttributeError)"

definition root :: "codebase \<Rightarrow> error + resource" where
  "root cb = deref cb 0"

definition store :: "codebase \<Rightarrow> nat \<Rightarrow> resource \<Rightarrow> codebase" where
  "store cb s r = cb\<lparr>resources := (resources cb)[s := ERes r]\<rparr>"

subsection \<open>Creating a Resource\<close>

text \<open>
  \<^verbatim>\<open>'%08x' % rid\<close>: the lower-case hexadecimal digits of the absolute value,
  after the sign if there is one, padded with zeros to eight characters.
\<close>

definition hex_digit :: "nat \<Rightarrow> char" where
  "hex_digit d = ''0123456789abcdef'' ! d"

function hex_nat :: "nat \<Rightarrow> string" where
  "hex_nat n = (if n < 16 then [hex_digit n] else hex_nat (n div 16) @ [hex_digit (n mod 16)])"
  by pat_completeness auto
termination
  by (relation "measure id") auto

definition fmt_08x :: "int \<Rightarrow> string" where
  "fmt_08x i =
     (let sign = (if i < 0 then ''-'' else []);
          ds = hex_nat (nat \<bar>i\<bar>)
      in sign @ replicate (8 - (length sign + length ds)) CHR ''0'' @ ds)"

text \<open>
  The constructor with the arguments that \<^verbatim>\<open>_add_child\<close> passes, the defaults of
  the other attributes, and \<^verbatim>\<open>__attrs_post_init__\<close>:
  \<^verbatim>\<open>
  hx = '%08x' % self.rid
  self.cache_keys = hx[-2:], hx
  \<close>
\<close>

definition Resource :: "string \<Rightarrow> int \<Rightarrow> int option \<Rightarrow> int \<Rightarrow> bool \<Rightarrow> bool \<Rightarrow> resource" where
  "Resource nm i p c f uc =
     (let hx = fmt_08x i
      in \<lparr>name = nm, rid = i, pid = p, cid = c, is_file = f, children_rids = [],
          errors = [], scans = [], use_cache = uc,
          cache_keys = (drop (length hx - 2) hx, hx),
          size' = 0, files_count = 0, dirs_count = 0\<rparr>)"

subsection \<open>get_resource\<close>

text \<open>
  \<^verbatim>\<open>
  def get_resource(self, rid):
      try:
          return self.resources[rid]
      except IndexError:
          pass
  \<close>
  The result is the slot's value; \<open>ENone\<close> is Python's \<^verbatim>\<open>None\<close>.
\<close>

definition get_resource :: "codebase \<Rightarrow> int \<Rightarrow> error + entry" where
  "get_resource cb i =
     (case py_index (resources cb) i of
        Inr e \<Rightarrow> Inr e
      | Inl err \<Rightarrow> if err = IndexError then Inr ENone else Inl err)"

subsection \<open>Traversal\<close>

text \<open>
  \<^verbatim>\<open>Resource.children\<close>:
  \<^verbatim>\<open>[resources[rid] for rid in self.children_rids]\<close>, as the slots read.
\<close>

definition children :: "codebase \<Rightarrow> resource \<Rightarrow> error + nat list" where
  "children cb self = mapE (py_slot (resources cb)) (children_rids self)"

text \<open>
  \<^verbatim>\<open>children.sort(key=lambda r: (r.is_file, r.name))\<close>: the keys are computed for
  every child first (a child that is no \<^verbatim>\<open>Resource\<close> has no such attributes),
  then the list is sorted stably.
\<close>

definition sort_children :: "codebase \<Rightarrow> nat list \<Rightarrow> error + nat list" where
  "sort_children cb ss =
     (case mapE (deref cb) ss of
        Inl e \<Rightarrow> Inl e
      | Inr rs \<Rightarrow> Inr (map fst (sort_key (\<lambda>(s, r). (is_file r, name r)) (zip ss rs))))"

text \<open>
  \<^verbatim>\<open>
  def _walk(self, topdown=True, sort=False):
      if topdown:
          yield self
      children = self.children()
      if sort and children:
          sorter = lambda r: (r.is_file, r.name)
          children.sort(key=sorter)
      for child in children:
          for subchild in child._walk(topdown, sort):
              yield subchild
      if not topdown:
          yield self
  \<close>
  The generator is modelled by the list of all it yields (as slots), or by the first
  exception raised while it is consumed. The recursion follows handles through the
  node array and need not end; the first argument bounds its depth, as the
  interpreter's recursion limit does.
\<close>

fun Resource__walk :: "nat \<Rightarrow> codebase \<Rightarrow> bool \<Rightarrow> bool \<Rightarrow> nat \<Rightarrow> error + nat list" where
  "Resource__walk 0 cb topdown sort' s = Inl RuntimeError"
| "Resource__walk (Suc n) cb topdown sort' s =
     (case deref cb s of
        Inl e \<Rightarrow> Inl e
      | Inr self \<Rightarrow>
         (case children cb self of
            Inl e \<Rightarrow> Inl e
          | Inr chs \<Rightarrow>
             (case (if sort' \<and> chs \<noteq> [] then sort_children cb chs else Inr chs) of
                Inl e \<Rightarrow> Inl e
              | Inr chs' \<Rightarrow>
                 (case mapE (Resource__walk n cb topdown sort') chs' of
                    Inl e \<Rightarrow> Inl e
                  | Inr subs \<Rightarrow>
                      Inr ((if topdown then [s] else []) @ concat subs
                           @ (if topdown then [] else [s]))))))"

text \<open>
  Modelled from the spec: \<^verbatim>\<open>commoncode.functional.iter_skip\<close> is not among the
  sources. The spec says of its use that \<^verbatim>\<open>skip_root\<close> elides the root from the
  sequence, the first element if \<^verbatim>\<open>topdown\<close>, the last if not.
\<close>

definition iter_skip :: "'a list \<Rightarrow> bool \<Rightarrow> bool \<Rightarrow> 'a list" where
  "iter_skip xs skip_first skip_last =
     (let ys = (if skip_first then tl xs else xs)
      in if skip_last then butlast ys else ys)"

text \<open>
  \<^verbatim>\<open>
  def walk(self, topdown=True, sort=False, skip_root=False):
      if self.pid == None and not self.children_rids:
          return [self]
      walked = self._walk(topdown, sort)
      if skip_root:
          skip_first = skip_last = False
          if topdown:
              skip_first = True
          else:
              skip_last = True
          walked = iter_skip(walked, skip_first, skip_last)
      return walked
  \<close>
\<close>

definition Resource_walk ::
  "nat \<Rightarrow> codebase \<Rightarrow> nat \<Rightarrow> bool \<Rightarrow> bool \<Rightarrow> bool \<Rightarrow> error + nat list" where
  "Resource_walk fuel cb s topdown sort' skip_root =
     (case deref cb s of
        Inl e \<Rightarrow> Inl e
      | Inr self \<Rightarrow>
          if pid self = None \<and> children_rids self = [] then Inr [s]
          else
            (case Resource__walk fuel cb topdown sort' s of
               Inl e \<Rightarrow> Inl e
             | Inr walked \<Rightarrow>
                 Inr (if skip_root then iter_skip walked topdown (\<not> topdown) else walked)))"

text \<open>
  \<^verbatim>\<open>
  def walk(self, topdown=True, sort=False, skip_root=False):
      if not self.root.children_rids:
          return [self.root]
      return self.root.walk(topdown, sort, skip_root)
  \<close>
\<close>

definition Codebase_walk ::
  "nat \<Rightarrow> codebase \<Rightarrow> bool \<Rightarrow> bool \<Rightarrow> bool \<Rightarrow> error + nat list" where
  "Codebase_walk fuel cb topdown sort' skip_root =
     (case root cb of
        Inl e \<Rightarrow> Inl e
      | Inr r \<Rightarrow>
          if children_rids r = [] then Inr [0]
          else Resource_walk fuel cb 0 topdown sort' skip_root)"

subsection \<open>Adding and removing resources\<close>

text \<open>
  \<^verbatim>\<open>
  def _get_next_rid(self):
      return len([r for r in self.resources if r is not None])
  \<close>
\<close>

definition get_next_rid :: "codebase \<Rightarrow> int" where
  "get_next_rid cb = int (length (filter (\<lambda>r. r \<noteq> ENone) (resources cb)))"

text \<open>
  \<^verbatim>\<open>
  def _add_child(self, name, rid, is_file=False):
      res = Resource(name=name, rid=rid, pid=self.rid, cid=self.cid,
                     is_file=is_file, use_cache=self.use_cache)
      self.children_rids.append(rid)
      return res
  \<close>
  The result is the created child and the codebase in which \<^verbatim>\<open>self\<close>, at slot
  \<open>s\<close>, has the new handle in its children. The child is not yet in any slot.
\<close>

definition Resource__add_child ::
  "codebase \<Rightarrow> nat \<Rightarrow> string \<Rightarrow> int \<Rightarrow> bool \<Rightarrow> error + (resource \<times> codebase)" where
  "Resource__add_child cb s nm i f =
     (case deref cb s of
        Inl e \<Rightarrow> Inl e
      | Inr self \<Rightarrow>
          (let res = Resource nm i (Some (rid self)) (cid self) f (use_cache self)
           in Inr (res, store cb s (self\<lparr>children_rids := children_rids self @ [i]\<rparr>))))"

text \<open>
  \<^verbatim>\<open>
  def add_child(self, name, is_file=False):
      rid = self.codebase._get_next_rid()
      child = self._add_child(name, rid, is_file)
      self.codebase.resources.append(rid)
      return child
  \<close>
\<close>

definition add_child ::
  "codebase \<Rightarrow> nat \<Rightarrow> string \<Rightarrow> bool \<Rightarrow> error + (resource \<times> codebase)" where
  "add_child cb s nm f =
     (let i = get_next_rid cb
      in case Resource__add_child cb s nm i f of
           Inl e \<Rightarrow> Inl e
         | Inr (child, cb') \<Rightarrow>
             Inr (child, cb'\<lparr>resources := resources cb' @ [EInt i]\<rparr>))"

text \<open>
  \<^verbatim>\<open>for rid in rids: resources[rid] = None\<close>. An index out of range raises in
  the middle of the loop; the slots set before stay set.
\<close>

fun tombstone :: "entry list \<Rightarrow> int list \<Rightarrow> (error option \<times> entry list)" where
  "tombstone rs [] = (None, rs)"
| "tombstone rs (i # is) =
     (case py_slot rs i of
        Inl e \<Rightarrow> (Some e, rs)
      | Inr k \<Rightarrow> tombstone (rs[k := ENone]) is)"

text \<open>The truth value of \<^verbatim>\<open>if parent:\<close> for what a slot can hold.\<close>

definition truthy :: "entry \<Rightarrow> bool" where
  "truthy e = (case e of ENone \<Rightarrow> False | ERes r \<Rightarrow> True | EInt i \<Rightarrow> i \<noteq> 0)"

text \<open>
  \<^verbatim>\<open>
  def remove_resource(self, resource):
      if resource.pid is None:
          raise Exception(
              'Cannot remove the root resource from codebase:', repr(resource))
      rids = [res.rid for res in resource.walk(topdown=True)]
      resources = self.resources
      for rid in rids:
          resources[rid] = None

      parent = resource.parent()
      if parent:
          try:
              parent.children_rids.remove(resource.rid)
          except ValueError:
              pass
      return rids
  \<close>
  with \<^verbatim>\<open>parent\<close> being \<^verbatim>\<open>self.codebase.resources[self.pid]\<close>. The result
  is the exception or the returned handles, together with the codebase as the call
  leaves it. \<^verbatim>\<open>list.remove\<close> deletes the first occurrence, and its
  \<^verbatim>\<open>ValueError\<close> on a missing element is caught: \<open>remove1\<close> does both.
\<close>

definition remove_resource :: "nat \<Rightarrow> codebase \<Rightarrow> nat \<Rightarrow> (error + int list) \<times> codebase" where
  "remove_resource fuel cb s =
     (case deref cb s of
        Inl e \<Rightarrow> (Inl e, cb)
      | Inr resource \<Rightarrow>
         (case pid resource of
            None \<Rightarrow> (Inl RootRemoval, cb)
          | Some p \<Rightarrow>
             (case Resource_walk fuel cb s True False False of
                Inl e \<Rightarrow> (Inl e, cb)
              | Inr walked \<Rightarrow>
                 (case mapE (\<lambda>w. map_sum id rid (deref cb w)) walked of
                    Inl e \<Rightarrow> (Inl e, cb)
                  | Inr rids \<Rightarrow>
                     (case tombstone (resources cb) rids of
                        (Some e, rs) \<Rightarrow> (Inl e, cb\<lparr>resources := rs\<rparr>)
                      | (None, rs) \<Rightarrow>
                         (case py_slot rs p of
                            Inl e \<Rightarrow> (Inl e, cb\<lparr>resources := rs\<rparr>)
                          | Inr k \<Rightarrow>
                             if truthy (rs ! k) then
                               (case rs ! k of
                                  ERes parent \<Rightarrow>
                                    (Inr rids,
                                     cb\<lparr>resources := rs[k := ERes (parent\<lparr>children_rids :=
                                        remove1 (rid resource) (children_rids parent)\<rparr>)]\<rparr>)
                                | _ \<Rightarrow> (Inl AttributeError, cb\<lparr>resources := rs\<rparr>))
                             else (Inr rids, cb\<lparr>resources := rs\<rparr>)))))))"

subsection \<open>Counts\<close>

text \<open>
  \<^verbatim>\<open>
  def _children_counts(self):
      files_count = dirs_count = size = 0
      if not self.children_rids:
          return files_count, dirs_count, size
      for res in self.children():
          files_count += res.files_count
          dirs_count += res.dirs_count
          if res.is_file:
              files_count += 1
          else:
              dirs_count += 1
          size += res.size
      return files_count, dirs_count, size
  \<close>
\<close>

definition count_child :: "resource \<Rightarrow> int \<times> int \<times> int \<Rightarrow> int \<times> int \<times> int" where
  "count_child res acc =
     (case acc of (files, dirs, sz) \<Rightarrow>
        (files + files_count res + (if is_file res then 1 else 0),
         dirs + dirs_count res + (if is_file res then 0 else 1),
         sz + size' res))"

definition children_counts :: "codebase \<Rightarrow> resource \<Rightarrow> error + (int \<times> int \<times> int)" where
  "children_counts cb self =
     (if children_rids self = [] then Inr (0, 0, 0)
      else
        (case children cb self of
           Inl e \<Rightarrow> Inl e
         | Inr chs \<Rightarrow>
            (case mapE (deref cb) chs of
               Inl e \<Rightarrow> Inl e
             | Inr rs \<Rightarrow> Inr (fold count_child rs (0, 0, 0)))))"

text \<open>
  \<^verbatim>\<open>
  def _update_children_counts(self):
      files, dirs, size = self._children_counts()
      if not self.is_file:
          self.size = size
      self.files_count = files
      self.dirs_count = dirs
  \<close>
\<close>

definition update_children_counts :: "codebase \<Rightarrow> nat \<Rightarrow> error + codebase" where
  "update_children_counts cb s =
     (case deref cb s of
        Inl e \<Rightarrow> Inl e
      | Inr self \<Rightarrow>
         (case children_counts cb self of
            Inl e \<Rightarrow> Inl e
          | Inr (files, dirs, sz) \<Rightarrow>
              Inr (store cb s
                (self\<lparr>size' := (if \<not> is_file self then sz else size' self),
                      files_count := files, dirs_count := dirs\<rparr>))))"

text \<open>
  \<^verbatim>\<open>
  def update_counts(self):
      for resource in self.walk(topdown=False):
          resource._update_children_counts()
  \<close>
  The updates change no handle, so that the walk yields the same resources whether it
  runs ahead of the updates or between them.
\<close>

fun update_each :: "codebase \<Rightarrow> nat list \<Rightarrow> error + codebase" where
  "update_each cb [] = Inr cb"
| "update_each cb (s # ss) =
     (case update_children_counts cb s of
        Inl e \<Rightarrow> Inl e
      | Inr cb' \<Rightarrow> update_each cb' ss)"

definition update_counts :: "nat \<Rightarrow> codebase \<Rightarrow> error + codebase" where
  "update_counts fuel cb =
     (case Codebase_walk fuel cb False False False of
        Inl e \<Rightarrow> Inl e
      | Inr walked \<Rightarrow> update_each cb walked)"

text \<open>
  \<^verbatim>\<open>
  def counts(self, update=True, skip_root=False):
      if update:
          self.update_counts()
      root = self.root
      if skip_root and not self.is_file:
          counts = [(c.files_count, c.dirs_count, c.size) for c in root.children()]
          files_count, dirs_count, size = map(sum, zip(*counts))
      else:
          files_count = root.files_count
          dirs_count = root.dirs_count
          size = root.size
          if self.is_file:
              files_count += 1
          else:
              dirs_count += 1
      return files_count, dirs_count, size
  \<close>
  With no children, \<^verbatim>\<open>zip(*counts)\<close> is empty and the unpacking of three
  values raises \<^verbatim>\<open>ValueError\<close>.
\<close>

definition counts ::
  "nat \<Rightarrow> codebase \<Rightarrow> bool \<Rightarrow> bool \<Rightarrow> error + ((int \<times> int \<times> int) \<times> codebase)" where
  "counts fuel cb update skip_root =
     (case (if update then update_counts fuel cb else Inr cb) of
        Inl e \<Rightarrow> Inl e
      | Inr cb' \<Rightarrow>
         (case root cb' of
            Inl e \<Rightarrow> Inl e
          | Inr r \<Rightarrow>
              if skip_root \<and> \<not> cb_is_file cb' then
                (case children cb' r of
                   Inl e \<Rightarrow> Inl e
                 | Inr chs \<Rightarrow>
                    (case mapE (deref cb') chs of
                       Inl e \<Rightarrow> Inl e
                     | Inr cs \<Rightarrow>
                         if cs = [] then Inl ValueError
                         else Inr ((sum_list (map files_count cs),
                                    sum_list (map dirs_count cs),
                                    sum_list (map size' cs)), cb')))
              else
                Inr ((files_count r + (if cb_is_file cb' then 1 else 0),
                      dirs_count r + (if cb_is_file cb' then 0 else 1),
                      size' r), cb')))"

subsection \<open>The scan cache\<close>


text \<open>
  \<^verbatim>\<open>json.dump\<close> and \<^verbatim>\<open>json.load\<close> are the standard library's and stay
  parameters of the two operations: \<open>dump\<close> gives the text written for a mapping,
  \<open>load\<close> the mapping read from a text (with
  \<^verbatim>\<open>object_pairs_hook=OrderedDict\<close>), or the \<^verbatim>\<open>ValueError\<close> of a text that
  does not parse.
\<close>





subsection \<open>The tree invariant\<close>

text \<open>
  The child relation that the handles spell out: \<open>c\<close> is a child slot of \<open>s\<close> if
  slot \<open>s\<close> holds a resource with a child handle that reads slot \<open>c\<close>. The
  subtree of \<open>s\<close> is \<open>s\<close> with all its descendants.
\<close>

definition child_rel :: "codebase \<Rightarrow> (nat \<times> nat) set" where
  "child_rel cb =
     {(s, c). \<exists>r i. deref cb s = Inr r \<and> i \<in> set (children_rids r)
                    \<and> py_slot (resources cb) i = Inr c}"

definition subtree :: "codebase \<Rightarrow> nat \<Rightarrow> nat set" where
  "subtree cb s = {t. (s, t) \<in> (child_rel cb)\<^sup>*}"

text \<open>
  The shape of the node array as \<^verbatim>\<open>populate\<close> numbers it (the root first,
  every resource after its parent) and as \<^verbatim>\<open>remove_resource\<close> keeps it: a
  slot holds \<^verbatim>\<open>None\<close> or a resource whose
  handle is the slot's index; the children of a resource are distinct handles of
  later slots that hold resources naming it as their parent; only slot 0 has no
  parent, and every other resource is listed among the children of its parent, which
  sits in an earlier slot.
\<close>

definition wf_slot :: "entry list \<Rightarrow> nat \<Rightarrow> bool" where
  "wf_slot rs i =
     (case rs ! i of
        ENone \<Rightarrow> True
      | EInt k \<Rightarrow> False
      | ERes r \<Rightarrow>
          rid r = int i \<and> distinct (children_rids r)
          \<and> (\<forall>c \<in> set (children_rids r).
                int i < c \<and> c < int (length rs)
                \<and> (case rs ! nat c of ERes rc \<Rightarrow> pid rc = Some (int i) | _ \<Rightarrow> False))
          \<and> (case pid r of
                None \<Rightarrow> i = 0
              | Some p \<Rightarrow>
                  0 \<le> p \<and> p < int i
                  \<and> (case rs ! nat p of
                        ERes rp \<Rightarrow> int i \<in> set (children_rids rp)
                      | _ \<Rightarrow> False)))"

definition wf_codebase :: "codebase \<Rightarrow> bool" where
  "wf_codebase cb = (\<forall>i < length (resources cb). wf_slot (resources cb) i)"

section \<open>The merkle tree builder\<close>

subsection \<open>Records, directories and the heap\<close>

text \<open>
  A scan result is a mapping; the builder reads its \<^verbatim>\<open>path\<close>, \<^verbatim>\<open>type\<close> and
  \<^verbatim>\<open>sha1\<close> keys and writes \<^verbatim>\<open>sha1\<close>. The other keys are carried along
  and are left out. A \<^verbatim>\<open>sha1\<close> that is \<^verbatim>\<open>None\<close> is \<open>None\<close>.
\<close>

record file_info =
  path :: string
  ftype :: string
  sha1 :: "string option"

text \<open>
  A \<^verbatim>\<open>Dir\<close> object holds its record and two list objects. The code assigns list
  objects from one \<^verbatim>\<open>Dir\<close> to another (\<^verbatim>\<open>dir.dirs = current.dirs\<close>), after
  which both see what is appended through either, so the lists live in stores of their
  own and a \<^verbatim>\<open>Dir\<close> holds their addresses. A \<^verbatim>\<open>Dir\<close> is referred to by its
  address in \<open>objs\<close>. A \<^verbatim>\<open>File\<close> object holds its record only.
\<close>

record dir_obj =
  data :: file_info
  dirs :: nat
  files :: nat

record heap =
  objs :: "dir_obj list"
  dlists :: "nat list list"
  flists :: "file_info list list"

definition empty_heap :: heap where
  "empty_heap = \<lparr>objs = [], dlists = [], flists = []\<rparr>"

text \<open>\<^verbatim>\<open>Dir(data)\<close>: a new object with two new empty lists.\<close>

definition Dir :: "heap \<Rightarrow> file_info \<Rightarrow> nat \<times> heap" where
  "Dir h d =
     (length (objs h),
      h\<lparr>objs := objs h @ [\<lparr>data = d, dirs = length (dlists h), files = length (flists h)\<rparr>],
        dlists := dlists h @ [[]],
        flists := flists h @ [[]]\<rparr>)"

text \<open>
  \<^verbatim>\<open>
  def create_empty_dir(path):
      dir_data = _empty_file_infos()
      dir_data['path'] = path
      dir_data['basename'] = file_base_name(path)
      dir_data['name'] = file_name(path)
      dir_data['type'] = 'directory'
      return Dir(dir_data)
  \<close>
  Modelled from the spec: \<^verbatim>\<open>scancode.api._empty_file_infos\<close> is not among the
  sources; a placeholder directory carries no content hash until the hashing pass
  computes one.
\<close>

definition create_empty_dir :: "heap \<Rightarrow> string \<Rightarrow> nat \<times> heap" where
  "create_empty_dir h p = Dir h \<lparr>path = p, ftype = ''directory'', sha1 = None\<rparr>"

text \<open>The attributes of the \<^verbatim>\<open>Dir\<close> at an address, and \<^verbatim>\<open>Dir.__eq__\<close>.\<close>

definition dir_path :: "heap \<Rightarrow> nat \<Rightarrow> string" where
  "dir_path h d = path (data (objs h ! d))"

definition dir_dirs :: "heap \<Rightarrow> nat \<Rightarrow> nat list" where
  "dir_dirs h d = dlists h ! dirs (objs h ! d)"

definition dir_files :: "heap \<Rightarrow> nat \<Rightarrow> file_info list" where
  "dir_files h d = flists h ! files (objs h ! d)"

definition dir_eq :: "heap \<Rightarrow> nat \<Rightarrow> nat \<Rightarrow> bool" where
  "dir_eq h d e = (dir_path h d = dir_path h e)"

subsection \<open>Paths\<close>

text \<open>\<^verbatim>\<open>s.rstrip('/')\<close> and \<^verbatim>\<open>s.strip('/')\<close>.\<close>

definition rstrip_slash :: "string \<Rightarrow> string" where
  "rstrip_slash s = rev (dropWhile (\<lambda>c. c = CHR ''/'') (rev s))"

definition strip_slash :: "string \<Rightarrow> string" where
  "strip_slash s = dropWhile (\<lambda>c. c = CHR ''/'') (rstrip_slash s)"

text \<open>
  Modelled from the spec: \<^verbatim>\<open>commoncode.fileutils.parent_directory\<close> is not among
  the sources. The spec has POSIX-style paths and calls the result the direct parent
  path of a record: the path without its last segment, with the slash that ends it. A
  path of one segment, and the empty path, have the parent \<^verbatim>\<open>/\<close>.
\<close>

definition parent_directory :: "string \<Rightarrow> string" where
  "parent_directory p =
     (let q = rstrip_slash p;
          left = rstrip_slash (rev (dropWhile (\<lambda>c. c \<noteq> CHR ''/'') (rev q)))
      in left @ ''/'')"

subsection \<open>build_tree\<close>

text \<open>
  The inner loop of \<^verbatim>\<open>build_tree\<close>:
  \<^verbatim>\<open>
  current = parent
  while current != root:
      curr_path = current.data.get('path')
      curr_parent_path = parent_directory(curr_path).strip('/')
      curr_parent = dirs.get(curr_parent_path)
      if curr_parent:
          for dir in curr_parent.dirs:
              if dir == current:
                  dir.dirs = current.dirs
                  dir.files = current.files
                  break
          else:
              curr_parent.dirs.append(current)
      else:
          parent = create_empty_dir(curr_parent_path)
          dirs[curr_parent_path] = parent
          curr_parent = parent
      current = curr_parent
  \<close>
  The state is the heap, the dict \<^verbatim>\<open>dirs\<close> and the variables \<^verbatim>\<open>parent\<close> and
  \<^verbatim>\<open>current\<close>. The loop need not end: the first argument bounds the number of
  times its condition is tested, and \<open>None\<close> is a loop that has not ended within
  that bound.
\<close>

type_synonym dirs_dict = "(string \<times> nat) list"

definition link_dir :: "heap \<Rightarrow> nat \<Rightarrow> nat \<Rightarrow> heap" where
  "link_dir h curr_parent current =
     (case find (\<lambda>dir. dir_eq h dir current) (dir_dirs h curr_parent) of
        Some dir \<Rightarrow>
          h\<lparr>objs := (objs h)[dir := (objs h ! dir)
                \<lparr>dirs := dirs (objs h ! current), files := files (objs h ! current)\<rparr>]\<rparr>
      | None \<Rightarrow>
          h\<lparr>dlists := (dlists h)[dirs (objs h ! curr_parent) :=
                dir_dirs h curr_parent @ [current]]\<rparr>)"

fun attach_ancestors ::
  "nat \<Rightarrow> nat \<Rightarrow> heap \<times> dirs_dict \<times> nat \<times> nat \<Rightarrow> (heap \<times> dirs_dict \<times> nat) option" where
  "attach_ancestors 0 root' st = None"
| "attach_ancestors (Suc n) root' (h, dd, parent, current) =
     (if dir_eq h current root' then Some (h, dd, parent)
      else
        (let curr_path = dir_path h current;
             curr_parent_path = strip_slash (parent_directory curr_path)
         in case map_of dd curr_parent_path of
              Some curr_parent \<Rightarrow>
                attach_ancestors n root' (link_dir h curr_parent current, dd, parent, curr_parent)
            | None \<Rightarrow>
                (case create_empty_dir h curr_parent_path of
                   (parent', h') \<Rightarrow>
                     attach_ancestors n root'
                       (h', AList.update curr_parent_path parent' dd, parent', parent'))))"

text \<open>
  The end of the body of the outer loop:
  \<^verbatim>\<open>
  if isdir:
      d = Dir(scanned_file)
      for dir in parent.dirs:
          if dir == d:
              dir.data = d.data
              break
      else:
          parent.dirs.append(d)
  else:
      f = File(scanned_file)
      parent.files.append(f)
  \<close>
\<close>

definition place_record :: "heap \<Rightarrow> nat \<Rightarrow> file_info \<Rightarrow> heap" where
  "place_record h parent scanned_file =
     (if ftype scanned_file = ''directory'' then
        (case Dir h scanned_file of
           (d, h1) \<Rightarrow>
             (case find (\<lambda>dir. dir_eq h1 dir d) (dir_dirs h1 parent) of
                Some dir \<Rightarrow>
                  h1\<lparr>objs := (objs h1)[dir := (objs h1 ! dir)\<lparr>data := data (objs h1 ! d)\<rparr>]\<rparr>
              | None \<Rightarrow>
                  h1\<lparr>dlists := (dlists h1)[dirs (objs h1 ! parent) :=
                        dir_dirs h1 parent @ [d]]\<rparr>))
      else
        h\<lparr>flists := (flists h)[files (objs h ! parent) :=
              dir_files h parent @ [scanned_file]]\<rparr>)"

text \<open>
  The body of the outer loop, for one record:
  \<^verbatim>\<open>
  path = scanned_file['path']
  isdir = scanned_file['type'] == 'directory'
  parent_path = parent_directory(path).strip('/')
  parent = dirs.get(parent_path)
  if not parent:
      parent = create_empty_dir(parent_path)
      dirs[parent_path] = parent
      (the inner loop)
  (the placing of the record)
  \<close>
\<close>

definition add_record ::
  "nat \<Rightarrow> nat \<Rightarrow> heap \<times> dirs_dict \<Rightarrow> file_info \<Rightarrow> (heap \<times> dirs_dict) option" where
  "add_record fuel root' st scanned_file =
     (case st of (h, dd) \<Rightarrow>
        (let parent_path = strip_slash (parent_directory (path scanned_file))
         in case map_of dd parent_path of
              Some parent \<Rightarrow> Some (place_record h parent scanned_file, dd)
            | None \<Rightarrow>
                (case create_empty_dir h parent_path of
                   (parent, h1) \<Rightarrow>
                     (case attach_ancestors fuel root'
                             (h1, AList.update parent_path parent dd, parent, parent) of
                        None \<Rightarrow> None
                      | Some (h2, dd2, parent2) \<Rightarrow>
                          Some (place_record h2 parent2 scanned_file, dd2)))))"

fun add_records ::
  "nat \<Rightarrow> nat \<Rightarrow> heap \<times> dirs_dict \<Rightarrow> file_info list \<Rightarrow> (heap \<times> dirs_dict) option" where
  "add_records fuel root' st [] = Some st"
| "add_records fuel root' st (r # rs) =
     (case add_record fuel root' st r of
        None \<Rightarrow> None
      | Some st' \<Rightarrow> add_records fuel root' st' rs)"

text \<open>
  \<^verbatim>\<open>
  def build_tree(results):
      results = list(results)
      sample_file = results[0]
      sample_file_path = sample_file['path']
      root_path = sample_file_path.split('/')[0]
      root = create_empty_dir(root_path)
      dirs = {root_path: root}
      for scanned_file in results:
          (the body of the outer loop)
      return root
  \<close>
  The result is \<open>None\<close> if an inner loop has not ended within the bound, the
  exception raised, or the root with the heap that holds the tree.
\<close>

definition build_tree :: "nat \<Rightarrow> file_info list \<Rightarrow> (error + nat \<times> heap) option" where
  "build_tree fuel results =
     (case results of
        [] \<Rightarrow> Some (Inl IndexError)
      | sample_file # _ \<Rightarrow>
          (let root_path = takeWhile (\<lambda>c. c \<noteq> CHR ''/'') (path sample_file)
           in case create_empty_dir empty_heap root_path of
                (root', h) \<Rightarrow>
                  (case add_records fuel root' (h, [(root_path, root')]) results of
                     None \<Rightarrow> None
                   | Some (h', dd) \<Rightarrow> Some (Inr (root', h')))))"

subsection \<open>The hashing pass\<close>

text \<open>
  \<^verbatim>\<open>
  def postorder_walk(self):
      for d in self.dirs:
          for subdir in d.postorder_walk():
              yield subdir
      yield self, self.dirs, self.files
  \<close>
  as the list of the directories it yields; the two lists yielded with each are read
  from the heap. The recursion is bounded as the interpreter bounds it.
\<close>

fun postorder_walk :: "nat \<Rightarrow> heap \<Rightarrow> nat \<Rightarrow> error + nat list" where
  "postorder_walk 0 h d = Inl RuntimeError"
| "postorder_walk (Suc n) h d =
     (case mapE (postorder_walk n h) (dir_dirs h d) of
        Inl e \<Rightarrow> Inl e
      | Inr subs \<Rightarrow> Inr (concat subs @ [d]))"

text \<open>
  A \<^verbatim>\<open>sha1()\<close> object is modelled by the text it has been fed: \<^verbatim>\<open>update\<close>
  appends to it, and \<^verbatim>\<open>hexdigest()\<close> is the digest function \<open>H\<close> of that
  text. The digest function is the standard algorithm and stays a parameter.
  \<^verbatim>\<open>update(None)\<close> raises \<^verbatim>\<open>TypeError\<close>.
\<close>

definition update_sha1 :: "string \<Rightarrow> string option \<Rightarrow> error + string" where
  "update_sha1 fed x = (case x of None \<Rightarrow> Inl TypeError | Some s \<Rightarrow> Inr (fed @ s))"

text \<open>
  \<^verbatim>\<open>
  for file in sorted(files, key=lambda x: x.data['sha1']):
      dir_hash.update(file.data['sha1'])
      yield file.data
  \<close>
\<close>

fun fold_files :: "string \<Rightarrow> file_info list \<Rightarrow> error + string" where
  "fold_files fed [] = Inr fed"
| "fold_files fed (f # fs) =
     (case update_sha1 fed (sha1 f) of
        Inl e \<Rightarrow> Inl e
      | Inr fed' \<Rightarrow> fold_files fed' fs)"

definition hash_files :: "file_info list \<Rightarrow> error + string" where
  "hash_files fs = fold_files [] (sort_key sha1 fs)"

text \<open>
  The body of the loop of \<^verbatim>\<open>build_merkle_tree\<close> for one directory, given the
  pending list \<^verbatim>\<open>hash_stack\<close> (of \<^verbatim>\<open>sha1\<close> objects):
  \<^verbatim>\<open>
  dir_hash = sha1()
  (the loop over the sorted files)
  if dirs:
      for hash in sorted(hash_stack, key=lambda x: x.hexdigest()):
          dir_hash.update(hash.hexdigest())
      hash_stack = []
  else:
      hash_stack.append(dir_hash)
  present_dir.data['sha1'] = dir_hash.hexdigest()
  yield present_dir.data
  \<close>
  The result is the text fed to \<^verbatim>\<open>dir_hash\<close> and the pending list afterwards.
\<close>

definition merkle_step ::
  "(string \<Rightarrow> string) \<Rightarrow> string list \<Rightarrow> nat list \<Rightarrow> file_info list
   \<Rightarrow> error + (string \<times> string list)" where
  "merkle_step H hash_stack ds fs =
     (case hash_files fs of
        Inl e \<Rightarrow> Inl e
      | Inr fed \<Rightarrow>
          if ds \<noteq> [] then
            Inr (fold (\<lambda>hash acc. acc @ H hash) (sort_key H hash_stack) fed, [])
          else Inr (fed, hash_stack @ [fed]))"

text \<open>
  The loop over the directories in post-order. Each step stores the digest in the
  record of the directory and yields the records of its files, sorted, and then its
  own record. The result is the heap, the pending list and all records yielded.
\<close>

fun hash_pass ::
  "(string \<Rightarrow> string) \<Rightarrow> heap \<Rightarrow> string list \<Rightarrow> nat list
   \<Rightarrow> error + (heap \<times> string list \<times> file_info list)" where
  "hash_pass H h hash_stack [] = Inr (h, hash_stack, [])"
| "hash_pass H h hash_stack (present_dir # rest) =
     (case merkle_step H hash_stack (dir_dirs h present_dir) (dir_files h present_dir) of
        Inl e \<Rightarrow> Inl e
      | Inr (fed, hash_stack') \<Rightarrow>
          (let rec = (data (objs h ! present_dir))\<lparr>sha1 := Some (H fed)\<rparr>;
               h' = h\<lparr>objs := (objs h)[present_dir := (objs h ! present_dir)\<lparr>data := rec\<rparr>]\<rparr>
           in case hash_pass H h' hash_stack' rest of
                Inl e \<Rightarrow> Inl e
              | Inr (h'', st, out) \<Rightarrow>
                  Inr (h'', st, sort_key sha1 (dir_files h present_dir) @ [rec] @ out)))"

text \<open>
  \<^verbatim>\<open>
  def build_merkle_tree(active_scans, results):
      results = list(results)
      root = build_tree(results)
      hash_stack = []
      for present_dir, dirs, files in root.postorder_walk():
          (the body of the loop)
  \<close>
  as the list of the records it yields when consumed to its end.
\<close>

definition build_merkle_tree ::
  "(string \<Rightarrow> string) \<Rightarrow> nat \<Rightarrow> file_info list \<Rightarrow> (error + file_info list) option" where
  "build_merkle_tree H fuel results =
     (case build_tree fuel results of
        None \<Rightarrow> None
      | Some (Inl e) \<Rightarrow> Some (Inl e)
      | Some (Inr (root', h)) \<Rightarrow>
          (case postorder_walk fuel h root' of
             Inl e \<Rightarrow> Some (Inl e)
           | Inr walked \<Rightarrow>
               (case hash_pass H h [] walked of
                  Inl e \<Rightarrow> Some (Inl e)
                | Inr (h', st, out) \<Rightarrow> Some (Inr out))))"

section \<open>Sample codebases\<close>

text \<open>
  A resource as \<^verbatim>\<open>populate\<close> creates it (in a codebase with handle 1 that
  keeps its scans in memory), with its children and its aggregates filled in.
\<close>

definition node ::
  "string \<Rightarrow> int \<Rightarrow> int option \<Rightarrow> bool \<Rightarrow> int list \<Rightarrow> int \<times> int \<times> int \<Rightarrow> resource" where
  "node nm i p f cs agg =
     (case agg of (fc, dc, sz) \<Rightarrow>
        (Resource nm i p 1 f False)
          \<lparr>children_rids := cs, size' := sz, files_count := fc, dirs_count := dc\<rparr>)"

text \<open>
  A codebase holding a single directory root, and one holding a root directory with a
  sub-directory (handle 1, with one file, handle 2) and a file (handle 3), as
  \<^verbatim>\<open>add_child\<close> numbers them when the three are added in this order, with
  the aggregates that \<^verbatim>\<open>update_counts\<close> computes.
\<close>

definition single_root :: codebase where
  "single_root =
     \<lparr>resources = [ERes (node ''top'' 0 None False [] (0, 0, 0))],
      cb_is_file = False, cb_use_cache = False, cb_cid = 1, cache_files = []\<rparr>"

definition small_tree :: codebase where
  "small_tree =
     \<lparr>resources =
        [ERes (node ''top'' 0 None False [1, 3] (2, 1, 15)),
         ERes (node ''lib'' 1 (Some 0) False [2] (1, 0, 10)),
         ERes (node ''a.c'' 2 (Some 1) True [] (0, 0, 10)),
         ERes (node ''b.c'' 3 (Some 0) True [] (0, 0, 5))],
      cb_is_file = False, cb_use_cache = False, cb_cid = 1, cache_files = []\<rparr>"






section \<open>Sample records\<close>

text \<open>
  Two file records that lie two levels below any directory of the stream, and the
  record of a top-level directory.
\<close>

definition rec_y :: file_info where
  "rec_y = \<lparr>path = ''a/b/c/y'', ftype = ''file'', sha1 = Some ''22''\<rparr>"

definition rec_z :: file_info where
  "rec_z = \<lparr>path = ''a/b/c/z'', ftype = ''file'', sha1 = Some ''33''\<rparr>"

definition rec_a :: file_info where
  "rec_a = \<lparr>path = ''a'', ftype = ''directory'', sha1 = None\<rparr>"

text \<open>
  The heap of \<^verbatim>\<open>build_tree\<close> on the single record \<open>rec_a\<close> after the first
  turn of its inner loop: the root \<^verbatim>\<open>a\<close> at address 0 and the placeholder for
  the empty path at address 1, which is its own child.
\<close>

definition stuck_heap :: heap where
  "stuck_heap =
     \<lparr>objs = [\<lparr>data = \<lparr>path = ''a'', ftype = ''directory'', sha1 = None\<rparr>, dirs = 0, files = 0\<rparr>,
              \<lparr>data = \<lparr>path = [], ftype = ''directory'', sha1 = None\<rparr>, dirs = 1, files = 1\<rparr>],
      dlists = [[], [1]],
      flists = [[], []]\<rparr>"

text \<open>
  A stream of two file records, one in the root \<^verbatim>\<open>a\<close> and one in its
  sub-directory \<^verbatim>\<open>a/b\<close>, and the heap that \<^verbatim>\<open>build_tree\<close> returns for it:
  the root at address 0 and the placeholder for \<^verbatim>\<open>a/b\<close> at address 1.
\<close>

definition rec_by :: file_info where
  "rec_by = \<lparr>path = ''a/b/y'', ftype = ''file'', sha1 = Some ''12''\<rparr>"

definition rec_ax :: file_info where
  "rec_ax = \<lparr>path = ''a/x'', ftype = ''file'', sha1 = Some ''11''\<rparr>"

definition two_level_heap :: heap where
  "two_level_heap =
     \<lparr>objs = [\<lparr>data = \<lparr>path = ''a'', ftype = ''directory'', sha1 = None\<rparr>, dirs = 0, files = 0\<rparr>,
              \<lparr>data = \<lparr>path = ''a/b'', ftype = ''directory'', sha1 = None\<rparr>, dirs = 1, files = 1\<rparr>],
      dlists = [[1], []],
      flists = [[rec_ax], [rec_by]]\<rparr>"

section \<open>Properties\<close>

subsection \<open>get_resource\<close>

text \<open>
  C10. \<^verbatim>\<open>get_resource\<close> returns \<^verbatim>\<open>None\<close> (and does not fail) for every
  handle \<open>i\<close> at or beyond the length of the node array; for every negative handle
  \<open>j\<close> whose absolute value is at most that length it returns the slot at position
  length + \<open>j\<close>, counted from the end of the array.
\<close>

theorem get_resource_out_of_range_and_negative:
  assumes "int (length (resources cb)) \<le> i"
    and "j < 0" and "- j \<le> int (length (resources cb))"
  shows "get_resource cb i = Inr ENone
       \<and> get_resource cb j = Inr (resources cb ! nat (int (length (resources cb)) + j))"
  using assms by (simp add: get_resource_def py_index_def py_slot_def)

theorem get_resource_out_of_range_and_negative_witness:
  "int (length (resources small_tree)) \<le> 4 \<and> (-1::int) < 0
   \<and> - (-1) \<le> int (length (resources small_tree))
   \<and> get_resource small_tree 4 = Inr ENone
   \<and> get_resource small_tree (-1) = Inr (ERes (node ''b.c'' 3 (Some 0) True [] (0, 0, 5)))"
proof -
  have len: "length (resources small_tree) = 4"
    by (simp add: small_tree_def)
  have h1: "int (length (resources small_tree)) \<le> 4"
    and h2: "(-1::int) < 0"
    and h3: "- (-1) \<le> int (length (resources small_tree))"
    by (simp_all add: len)
  have last: "resources small_tree ! nat (int (length (resources small_tree)) + (-1))
      = ERes (node ''b.c'' 3 (Some 0) True [] (0, 0, 5))"
    by (simp add: small_tree_def)
  show ?thesis
    using get_resource_out_of_range_and_negative [OF h1 h2 h3] h1 h3 last by simp
qed

subsection \<open>walk\<close>

text \<open>
  C4. For every codebase whose root has no children, \<^verbatim>\<open>Codebase.walk\<close> returns
  the one-element sequence holding the root (slot 0), for every value of
  \<^verbatim>\<open>topdown\<close>, \<^verbatim>\<open>sort\<close> and \<^verbatim>\<open>skip_root\<close> (so also when
  \<^verbatim>\<open>skip_root\<close> is true), and without any recursive step.
\<close>

theorem walk_childless_root:
  assumes "root cb = Inr r" and "children_rids r = []"
  shows "Codebase_walk fuel cb topdown sort' skip_root = Inr [0]"
  using assms by (simp add: Codebase_walk_def)

theorem walk_childless_root_witness:
  "root single_root = Inr (node ''top'' 0 None False [] (0, 0, 0))
   \<and> children_rids (node ''top'' 0 None False [] (0, 0, 0)) = []
   \<and> Codebase_walk 0 single_root False True True = Inr [0]"
proof -
  have h1: "root single_root = Inr (node ''top'' 0 None False [] (0, 0, 0))"
    by (simp add: root_def deref_def single_root_def as_resource_def)
  have h2: "children_rids (node ''top'' 0 None False [] (0, 0, 0)) = []"
    by (simp add: node_def Resource_def Let_def)
  show ?thesis
    using walk_childless_root [OF h1 h2, of 0 False True True] h1 h2 by simp
qed

subsection \<open>The registry\<close>

lemma find_none_values:
  "c \<notin> set (map snd reg) \<Longrightarrow> find (\<lambda>(cid, cached). c = cached) reg = None"
  by (induction reg) auto

lemma max_plus_one_fresh:
  "reg \<noteq> [] \<Longrightarrow> Max (set (map fst reg)) + 1 \<notin> set (map (fst :: int \<times> 'c \<Rightarrow> int) reg)"
proof
  assume ne: "reg \<noteq> []" and mem: "Max (set (map fst reg)) + 1 \<in> set (map fst reg)"
  have "Max (set (map fst reg)) + 1 \<le> Max (set (map fst reg))"
    using mem by (intro Max_ge) auto
  then show False by simp
qed

text \<open>
  C1, as the code has it. For every registry and every codebase that is not
  registered in it, \<^verbatim>\<open>add_codebase\<close> assigns 1 if the registry is empty and
  the greatest registered handle plus one otherwise, stores the codebase under that
  handle, and the handle differs from every handle registered at that moment. The
  registry keeps no record of handles it has handed out before.
\<close>

theorem add_codebase_fresh_handle:
  assumes "c \<notin> set (map snd reg)"
  shows "add_codebase True c reg =
           Inr (if reg = [] then 1 else Max (set (map fst reg)) + 1,
                AList.update (if reg = [] then 1 else Max (set (map fst reg)) + 1) c reg)
       \<and> (if reg = [] then 1 else Max (set (map fst reg)) + 1) \<notin> set (map fst reg)"
  using assms max_plus_one_fresh [of reg]
  by (simp add: add_codebase_def find_none_values Let_def)

theorem add_codebase_fresh_handle_witness:
  "(30::nat) \<notin> set (map snd [(1::int, 10), (4, 20)])
   \<and> add_codebase True (30::nat) [(1, 10), (4, 20)] = Inr (5, [(1, 10), (4, 20), (5, 30)])
   \<and> (5::int) \<notin> set (map fst [(1::int, 10::nat), (4, 20)])"
proof -
  have h: "(30::nat) \<notin> set (map snd [(1::int, 10), (4, 20)])" by simp
  show ?thesis
    using add_codebase_fresh_handle [OF h] by simp
qed

text \<open>
  C1 as stated fails: a process that registers a codebase, unregisters it and
  registers another one hands out the handle 1 twice.
\<close>

theorem handle_reused_after_unregister:
  "assigned [] [Register (10::nat), Unregister 1, Register 20] = [1, 1]"
  by (simp add: add_codebase_def del_codebase_def)

subsection \<open>Counts\<close>

text \<open>
  C3, as the code has it. For every codebase whose aggregates are up to date (or
  that is asked not to update them), \<^verbatim>\<open>counts(skip_root=False)\<close> returns the
  root's own aggregates with the root itself added: one more directory for a
  directory root, one more file for a codebase that is a single file. For a directory
  root with at least one child, \<^verbatim>\<open>counts(skip_root=True)\<close> returns the
  component-wise sum of the aggregate triples of the root's direct children. Neither
  call changes the codebase.
\<close>

theorem counts_of_root:
  assumes "root cb = Inr r"
    and "update \<longrightarrow> update_counts fuel cb = Inr cb"
  shows "counts fuel cb update False =
           Inr ((files_count r + (if cb_is_file cb then 1 else 0),
                 dirs_count r + (if cb_is_file cb then 0 else 1),
                 size' r), cb)
       \<and> (\<forall>chs cs.
             \<not> cb_is_file cb \<and> children cb r = Inr chs \<and> mapE (deref cb) chs = Inr cs
               \<and> cs \<noteq> [] \<longrightarrow>
             counts fuel cb update True =
               Inr ((sum_list (map files_count cs), sum_list (map dirs_count cs),
                     sum_list (map size' cs)), cb))"
  using assms by (cases update) (simp_all add: counts_def)

theorem counts_of_root_witness:
  "root small_tree = Inr (node ''top'' 0 None False [1, 3] (2, 1, 15))
   \<and> update_counts 3 small_tree = Inr small_tree
   \<and> \<not> cb_is_file small_tree
   \<and> children small_tree (node ''top'' 0 None False [1, 3] (2, 1, 15)) = Inr [1, 3]
   \<and> mapE (deref small_tree) [1, 3] =
       Inr [node ''lib'' 1 (Some 0) False [2] (1, 0, 10), node ''b.c'' 3 (Some 0) True [] (0, 0, 5)]
   \<and> counts 3 small_tree True False = Inr ((2, 2, 15), small_tree)
   \<and> counts 3 small_tree True True = Inr ((1, 0, 15), small_tree)"
proof -
  let ?top = "node ''top'' 0 None False [1, 3] (2, 1, 15)"
  let ?cs = "[node ''lib'' 1 (Some 0) False [2] (1, 0, 10), node ''b.c'' 3 (Some 0) True [] (0, 0, 5)]"
  have h1: "root small_tree = Inr ?top" by code_simp
  have u: "update_counts 3 small_tree = Inr small_tree" by code_simp
  then have h2: "True \<longrightarrow> update_counts 3 small_tree = Inr small_tree" by simp
  have h3: "\<not> cb_is_file small_tree" by code_simp
  have h4: "children small_tree ?top = Inr [1, 3]" by code_simp
  have h5: "mapE (deref small_tree) [1, 3] = Inr ?cs" by code_simp
  have h6: "?cs \<noteq> []" by simp
  have agg: "files_count ?top = 2" "dirs_count ?top + 1 = 2" "size' ?top = 15"
    "sum_list (map files_count ?cs) = 1" "sum_list (map dirs_count ?cs) = 0"
    "sum_list (map size' ?cs) = 15"
    by code_simp+
  from counts_of_root [OF h1 h2]
  have a: "counts 3 small_tree True False
      = Inr ((files_count ?top + 0, dirs_count ?top + 1, size' ?top), small_tree)"
    and b: "counts 3 small_tree True True
      = Inr ((sum_list (map files_count ?cs), sum_list (map dirs_count ?cs),
              sum_list (map size' ?cs)), small_tree)"
    using h3 h4 h5 h6 by auto
  show ?thesis
    using a b h1 u h3 h4 h5 by (simp only: agg simp_thms add_0_right)
qed

text \<open>
  C3 as stated fails: on a codebase with up-to-date aggregates whose root holds
  (2, 1, 15), \<^verbatim>\<open>counts(skip_root=False)\<close> returns (2, 2, 15).
\<close>

theorem counts_adds_the_root:
  "root small_tree = Inr (node ''top'' 0 None False [1, 3] (2, 1, 15))
   \<and> update_counts 3 small_tree = Inr small_tree
   \<and> counts 3 small_tree False False = Inr ((2, 2, 15), small_tree)
   \<and> counts 3 small_tree True False = Inr ((2, 2, 15), small_tree)"
  by code_simp

subsection \<open>The scan cache\<close>









subsection \<open>add_child\<close>

text \<open>
  C2 fails on the code. On a codebase holding only its root, \<^verbatim>\<open>add_child\<close>
  creates the child with handle 1 and links the handle into the root's children, but
  what it appends to the node array is the handle, not the child: slot 1 holds the
  integer 1. And after a removal the handle it allocates can index a live node: with
  slot 2 removed from a codebase of four resources, the next handle is 3, whose slot
  holds a resource.
\<close>

theorem add_child_appends_the_handle:
  "add_child single_root 0 ''a.c'' True =
     Inr (Resource ''a.c'' 1 (Some 0) 1 True False,
          single_root\<lparr>resources := [ERes (node ''top'' 0 None False [1] (0, 0, 0)), EInt 1]\<rparr>)
   \<and> get_resource
        (single_root\<lparr>resources := [ERes (node ''top'' 0 None False [1] (0, 0, 0)), EInt 1]\<rparr>) 1
       = Inr (EInt 1)
   \<and> fst (remove_resource 3 small_tree 2) = Inr [2]
   \<and> get_next_rid (snd (remove_resource 3 small_tree 2)) = 3
   \<and> get_resource (snd (remove_resource 3 small_tree 2)) 3
       = Inr (ERes (node ''b.c'' 3 (Some 0) True [] (0, 0, 5)))"
  by code_simp

subsection \<open>remove_resource\<close>

lemma mapE_all_Inr:
  "(\<And>x. x \<in> set xs \<Longrightarrow> f x = Inr (g x)) \<Longrightarrow> mapE f xs = Inr (map g xs)"
  by (induction xs) auto

lemma mapE_ex:
  "\<forall>x \<in> set xs. \<exists>y. f x = Inr y \<and> P x y \<Longrightarrow> \<exists>ys. mapE f xs = Inr ys \<and> list_all2 P xs ys"
  by (induction xs) auto

lemma subtree_unfold:
  "subtree cb s = insert s (\<Union>c \<in> {c. (s, c) \<in> child_rel cb}. subtree cb c)"
proof (rule set_eqI)
  fix t
  show "t \<in> subtree cb s \<longleftrightarrow> t \<in> insert s (\<Union>c \<in> {c. (s, c) \<in> child_rel cb}. subtree cb c)"
  proof
    assume "t \<in> subtree cb s"
    then have "(s, t) \<in> (child_rel cb)\<^sup>*" by (simp add: subtree_def)
    then show "t \<in> insert s (\<Union>c \<in> {c. (s, c) \<in> child_rel cb}. subtree cb c)"
      by (cases rule: converse_rtranclE) (auto simp: subtree_def)
  next
    assume "t \<in> insert s (\<Union>c \<in> {c. (s, c) \<in> child_rel cb}. subtree cb c)"
    then show "t \<in> subtree cb s"
      by (auto simp: subtree_def intro: converse_rtrancl_into_rtrancl)
  qed
qed

lemma wf_slotD:
  assumes "wf_codebase cb" and "s < length (resources cb)" and "resources cb ! s = ERes r"
  shows "rid r = int s" and "distinct (children_rids r)"
    and "\<And>c. c \<in> set (children_rids r) \<Longrightarrow>
           int s < c \<and> c < int (length (resources cb))
           \<and> (\<exists>rc. resources cb ! nat c = ERes rc \<and> pid rc = Some (int s))"
    and "\<And>p. pid r = Some p \<Longrightarrow>
           0 \<le> p \<and> p < int s
           \<and> (\<exists>rp. resources cb ! nat p = ERes rp \<and> int s \<in> set (children_rids rp))"
proof -
  have w: "wf_slot (resources cb) s" using assms(1,2) by (simp add: wf_codebase_def)
  show "rid r = int s" "distinct (children_rids r)"
    using w assms(3) by (simp_all add: wf_slot_def)
  have kids: "\<forall>c \<in> set (children_rids r).
      int s < c \<and> c < int (length (resources cb))
      \<and> (case resources cb ! nat c of ERes rc \<Rightarrow> pid rc = Some (int s) | _ \<Rightarrow> False)"
    using w assms(3) by (simp add: wf_slot_def)
  show "int s < c \<and> c < int (length (resources cb))
       \<and> (\<exists>rc. resources cb ! nat c = ERes rc \<and> pid rc = Some (int s))"
    if "c \<in> set (children_rids r)" for c
    using kids that by (cases "resources cb ! nat c") auto
  have par: "case pid r of
      None \<Rightarrow> s = 0
    | Some p \<Rightarrow> 0 \<le> p \<and> p < int s
        \<and> (case resources cb ! nat p of
              ERes rp \<Rightarrow> int s \<in> set (children_rids rp) | _ \<Rightarrow> False)"
    using w assms(3) by (simp add: wf_slot_def)
  show "0 \<le> p \<and> p < int s
       \<and> (\<exists>rp. resources cb ! nat p = ERes rp \<and> int s \<in> set (children_rids rp))"
    if "pid r = Some p" for p
    using par that by (cases "resources cb ! nat p") auto
qed

lemma deref_live:
  "s < length (resources cb) \<Longrightarrow> resources cb ! s = ERes r \<Longrightarrow> deref cb s = Inr r"
  by (simp add: deref_def as_resource_def)

lemma deref_Inr_iff:
  "deref cb s = Inr r \<longleftrightarrow> s < length (resources cb) \<and> resources cb ! s = ERes r"
  by (auto simp: deref_def as_resource_def split: entry.splits)

lemma wf_children:
  assumes "wf_codebase cb" and "s < length (resources cb)" and "resources cb ! s = ERes r"
  shows "children cb r = Inr (map nat (children_rids r))"
    and "{c. (s, c) \<in> child_rel cb} = nat ` set (children_rids r)"
proof -
  have slot: "py_slot (resources cb) c = Inr (nat c)" if "c \<in> set (children_rids r)" for c
    using wf_slotD(3) [OF assms that] by (simp add: py_slot_def)
  show "children cb r = Inr (map nat (children_rids r))"
    unfolding children_def by (rule mapE_all_Inr) (rule slot)
  show "{c. (s, c) \<in> child_rel cb} = nat ` set (children_rids r)"
    using assms(2,3) slot by (auto simp: child_rel_def deref_Inr_iff image_iff)
qed

lemma list_all2_concat_set:
  "list_all2 (\<lambda>c ys. set ys = F c \<and> Q c ys) cs subs
   \<Longrightarrow> set (concat subs) = (\<Union>c \<in> set cs. F c)"
  by (induction cs subs rule: list_all2_induct) auto

lemma list_all2_concat_all:
  "list_all2 (\<lambda>c ys. R c ys \<and> (\<forall>t \<in> set ys. Q c t)) cs subs
   \<Longrightarrow> (\<And>c t. c \<in> set cs \<Longrightarrow> Q c t \<Longrightarrow> Q' t)
   \<Longrightarrow> \<forall>t \<in> set (concat subs). Q' t"
  by (induction cs subs rule: list_all2_induct) auto

lemma walk_wf:
  assumes "wf_codebase cb"
  shows "s < length (resources cb) \<Longrightarrow> resources cb ! s = ERes r
     \<Longrightarrow> length (resources cb) - s \<le> n
     \<Longrightarrow> \<exists>xs. Resource__walk n cb True False s = Inr xs \<and> set xs = subtree cb s
            \<and> (\<forall>t \<in> set xs. s \<le> t \<and> t < length (resources cb)
                  \<and> (\<exists>rt. resources cb ! t = ERes rt))"
proof (induction n arbitrary: s r)
  case 0
  then show ?case by simp
next
  case (Suc n)
  let ?rs = "resources cb"
  let ?cs = "map nat (children_rids r)"
  let ?P = "\<lambda>c ys. set ys = subtree cb c
      \<and> (\<forall>t \<in> set ys. c \<le> t \<and> t < length ?rs \<and> (\<exists>rt. ?rs ! t = ERes rt))"
  have d: "deref cb s = Inr r" using Suc.prems by (simp add: deref_live)
  have ch: "children cb r = Inr ?cs"
    and rel: "{c. (s, c) \<in> child_rel cb} = set ?cs"
    using wf_children [OF assms Suc.prems(1,2)] by simp_all
  have each: "\<forall>c \<in> set ?cs. \<exists>ys. Resource__walk n cb True False c = Inr ys \<and> ?P c ys"
  proof
    fix c assume "c \<in> set ?cs"
    then obtain i where i: "i \<in> set (children_rids r)" and c: "c = nat i" by auto
    from wf_slotD(3) [OF assms Suc.prems(1,2) i] obtain rc
      where b: "int s < i" "i < int (length ?rs)" and rc: "?rs ! nat i = ERes rc" by auto
    have "c < length ?rs" "length ?rs - c \<le> n" "?rs ! c = ERes rc"
      using b rc c Suc.prems(3) by auto
    from Suc.IH [OF this(1) this(3) this(2)]
    show "\<exists>ys. Resource__walk n cb True False c = Inr ys \<and> ?P c ys" by blast
  qed
  from mapE_ex [of ?cs "Resource__walk n cb True False" ?P, OF each]
  obtain subs where subs: "mapE (Resource__walk n cb True False) ?cs = Inr subs"
    and all2: "list_all2 ?P ?cs subs" by blast
  have w: "Resource__walk (Suc n) cb True False s = Inr (s # concat subs)"
    by (simp add: d ch subs)
  have gt: "\<forall>c \<in> set ?cs. s < c"
  proof
    fix c assume "c \<in> set ?cs"
    then obtain i where i: "i \<in> set (children_rids r)" and c: "c = nat i" by auto
    from wf_slotD(3) [OF assms Suc.prems(1,2) i] have "int s < i" by simp
    then show "s < c" using c by linarith
  qed
  have set_concat: "set (concat subs) = (\<Union>c \<in> set ?cs. subtree cb c)"
    using all2 by (rule list_all2_concat_set)
  hence "set (s # concat subs) = subtree cb s"
    by (subst subtree_unfold) (simp add: rel)
  moreover have "\<forall>t \<in> set (s # concat subs). s \<le> t \<and> t < length ?rs \<and> (\<exists>rt. ?rs ! t = ERes rt)"
  proof -
    have "\<forall>t \<in> set (concat subs). s \<le> t \<and> t < length ?rs \<and> (\<exists>rt. ?rs ! t = ERes rt)"
    proof (rule list_all2_concat_all [OF all2])
      fix c t
      assume "c \<in> set ?cs" and "c \<le> t \<and> t < length ?rs \<and> (\<exists>rt. ?rs ! t = ERes rt)"
      then show "s \<le> t \<and> t < length ?rs \<and> (\<exists>rt. ?rs ! t = ERes rt)"
        using gt by auto
    qed
    then show ?thesis using Suc.prems by auto
  qed
  ultimately show ?case using w by blast
qed

lemma tombstone_slots:
  "\<forall>t \<in> set xs. t < length rs
   \<Longrightarrow> \<exists>rs'. tombstone rs (map int xs) = (None, rs') \<and> length rs' = length rs
         \<and> (\<forall>t < length rs. rs' ! t = (if t \<in> set xs then ENone else rs ! t))"
proof (induction xs arbitrary: rs)
  case Nil
  then show ?case by simp
next
  case (Cons x xs)
  have x: "x < length rs" using Cons.prems by simp
  have slot: "py_slot rs (int x) = Inr x" using x by (simp add: py_slot_def)
  have "\<forall>t \<in> set xs. t < length (rs[x := ENone])" using Cons.prems by simp
  from Cons.IH [OF this] obtain rs'
    where t: "tombstone (rs[x := ENone]) (map int xs) = (None, rs')"
      and len: "length rs' = length rs"
      and each: "\<forall>t < length rs. rs' ! t = (if t \<in> set xs then ENone else rs[x := ENone] ! t)"
    by auto
  have "tombstone rs (map int (x # xs)) = (None, rs')" by (simp add: slot t)
  moreover have "\<forall>t < length rs. rs' ! t = (if t \<in> set (x # xs) then ENone else rs ! t)"
    using each x by (auto simp: nth_list_update)
  ultimately show ?case using len by blast
qed

lemma remove_nonroot:
  assumes wf: "wf_codebase cb" and d: "deref cb s = Inr r" and p: "pid r = Some p"
    and fuel: "length (resources cb) \<le> fuel"
  shows "\<exists>rids rs' rp.
      remove_resource fuel cb s = (Inr rids, cb\<lparr>resources := rs'\<rparr>)
      \<and> set rids = int ` subtree cb s
      \<and> length rs' = length (resources cb)
      \<and> resources cb ! nat p = ERes rp
      \<and> int s \<notin> set (remove1 (int s) (children_rids rp))
      \<and> (\<forall>t < length (resources cb).
            rs' ! t =
              (if t \<in> subtree cb s then ENone
               else if t = nat p
                 then ERes (rp\<lparr>children_rids := remove1 (int s) (children_rids rp)\<rparr>)
                 else resources cb ! t))"
proof -
  let ?rs = "resources cb"
  have s: "s < length ?rs" and rs: "?rs ! s = ERes r"
    using d by (simp_all add: deref_Inr_iff)
  from wf_slotD(4) [OF wf s rs p] obtain rp
    where pb: "0 \<le> p" "p < int s" and rp: "?rs ! nat p = ERes rp"
      and listed: "int s \<in> set (children_rids rp)" by auto
  have np: "nat p < s" using pb by linarith
  have dist: "distinct (children_rids rp)"
    using wf_slotD(2) [OF wf _ rp] np s by simp
  have "length ?rs - s \<le> fuel" using fuel by simp
  from walk_wf [OF wf s rs this] obtain xs
    where w: "Resource__walk fuel cb True False s = Inr xs"
      and sub: "set xs = subtree cb s"
      and live: "\<forall>t \<in> set xs. s \<le> t \<and> t < length ?rs \<and> (\<exists>rt. ?rs ! t = ERes rt)"
    by blast
  have rw: "Resource_walk fuel cb s True False False = Inr xs"
    using d p w by (simp add: Resource_walk_def)
  have rids: "mapE (\<lambda>w. map_sum id rid (deref cb w)) xs = Inr (map int xs)"
  proof (rule mapE_all_Inr)
    fix t assume "t \<in> set xs"
    with live obtain rt where t: "t < length ?rs" and rt: "?rs ! t = ERes rt" by auto
    have "rid rt = int t" using wf_slotD(1) [OF wf t rt] .
    then show "map_sum id rid (deref cb t) = Inr (int t)"
      using t rt by (simp add: deref_live)
  qed
  from tombstone_slots [of xs ?rs] live obtain rs1
    where tomb: "tombstone ?rs (map int xs) = (None, rs1)"
      and len1: "length rs1 = length ?rs"
      and each1: "\<forall>t < length ?rs. rs1 ! t = (if t \<in> set xs then ENone else ?rs ! t)"
    by auto
  have pslot: "py_slot rs1 p = Inr (nat p)"
    using pb s len1 by (simp add: py_slot_def)
  have notin: "nat p \<notin> set xs" using live np by auto
  have at_p: "rs1 ! nat p = ERes rp" using each1 notin np s rp by simp
  let ?rp' = "rp\<lparr>children_rids := remove1 (int s) (children_rids rp)\<rparr>"
  let ?rs' = "rs1[nat p := ERes ?rp']"
  have rid_r: "rid r = int s" using wf_slotD(1) [OF wf s rs] .
  have res: "remove_resource fuel cb s = (Inr (map int xs), cb\<lparr>resources := ?rs'\<rparr>)"
    using d p rw rids tomb pslot at_p rid_r by (simp add: remove_resource_def truthy_def)
  have slots: "\<forall>t < length ?rs. ?rs' ! t =
      (if t \<in> subtree cb s then ENone else if t = nat p then ERes ?rp' else ?rs ! t)"
    using each1 len1 notin sub by (auto simp: nth_list_update)
  have gone: "int s \<notin> set (remove1 (int s) (children_rids rp))"
    using dist by simp
  show ?thesis
    apply (rule exI [of _ "map int xs"])
    apply (rule exI [of _ ?rs'])
    apply (rule exI [of _ rp])
    using res sub len1 rp gone slots by simp
qed


lemma wf_slotI:
  assumes "rs ! i = ERes r" and "rid r = int i" and "distinct (children_rids r)"
    and "\<And>c. c \<in> set (children_rids r) \<Longrightarrow>
           int i < c \<and> c < int (length rs)
           \<and> (\<exists>rc. rs ! nat c = ERes rc \<and> pid rc = Some (int i))"
    and "pid r = None \<Longrightarrow> i = 0"
    and "\<And>q. pid r = Some q \<Longrightarrow>
           0 \<le> q \<and> q < int i
           \<and> (\<exists>rq. rs ! nat q = ERes rq \<and> int i \<in> set (children_rids rq))"
  shows "wf_slot rs i"
proof -
  have kids: "\<forall>c \<in> set (children_rids r).
      int i < c \<and> c < int (length rs)
      \<and> (case rs ! nat c of ERes rc \<Rightarrow> pid rc = Some (int i) | _ \<Rightarrow> False)"
    using assms(4) by fastforce
  have par: "case pid r of
      None \<Rightarrow> i = 0
    | Some q \<Rightarrow> 0 \<le> q \<and> q < int i
        \<and> (case rs ! nat q of ERes rq \<Rightarrow> int i \<in> set (children_rids rq) | _ \<Rightarrow> False)"
  proof (cases "pid r")
    case None
    then show ?thesis using assms(5) by simp
  next
    case (Some q)
    from assms(6) [OF Some] show ?thesis using Some by fastforce
  qed
  show ?thesis
    using assms(1,2,3) kids par by (simp add: wf_slot_def)
qed

lemma child_relI:
  assumes "wf_codebase cb" and "u < length (resources cb)" and "resources cb ! u = ERes ru"
    and "c \<in> set (children_rids ru)"
  shows "(u, nat c) \<in> child_rel cb"
  using wf_children(2) [OF assms(1,2,3)] assms(4) by blast

lemma child_relD:
  assumes "wf_codebase cb" and "(u, t) \<in> child_rel cb"
  shows "\<exists>ru rt. u < length (resources cb) \<and> resources cb ! u = ERes ru
           \<and> int t \<in> set (children_rids ru)
           \<and> t < length (resources cb) \<and> resources cb ! t = ERes rt \<and> pid rt = Some (int u)"
proof -
  from assms(2) obtain ru where u: "u < length (resources cb)" and ru: "resources cb ! u = ERes ru"
    by (auto simp: child_rel_def deref_Inr_iff)
  from wf_children(2) [OF assms(1) u ru] assms(2) obtain c
    where c: "c \<in> set (children_rids ru)" and t: "t = nat c" by blast
  from wf_slotD(3) [OF assms(1) u ru c] obtain rt
    where b: "int u < c" "c < int (length (resources cb))"
      and rt: "resources cb ! nat c = ERes rt" "pid rt = Some (int u)" by blast
  have "int t = c" using b t by simp
  then show ?thesis using u ru c b rt t by auto
qed

lemma subtree_step: "u \<in> subtree cb s \<Longrightarrow> (u, t) \<in> child_rel cb \<Longrightarrow> t \<in> subtree cb s"
  by (simp add: subtree_def)

lemma subtree_self: "s \<in> subtree cb s"
  by (simp add: subtree_def)

lemma subtree_parent:
  assumes "t \<in> subtree cb s" and "t \<noteq> s"
  shows "\<exists>u \<in> subtree cb s. (u, t) \<in> child_rel cb"
proof -
  from assms(1) have "(s, t) \<in> (child_rel cb)\<^sup>*" by (simp add: subtree_def)
  then show ?thesis
    using assms(2) by (cases rule: rtranclE) (auto simp: subtree_def)
qed


lemma subtree_bounds:
  assumes "wf_codebase cb" and "s < length (resources cb)" and "resources cb ! s = ERes r"
    and "t \<in> subtree cb s"
  shows "s \<le> t \<and> t < length (resources cb)"
proof -
  have "length (resources cb) - s \<le> length (resources cb)" by simp
  from walk_wf [OF assms(1,2,3) this] assms(4) show ?thesis by blast
qed

text \<open>
  The invariant is kept: what \<^verbatim>\<open>remove_resource\<close> leaves of a codebase that
  satisfies it satisfies it again.
\<close>

lemma remove_resource_keeps_wf:
  assumes wf: "wf_codebase cb" and s: "s < length (resources cb)"
    and rs: "resources cb ! s = ERes r" and p: "pid r = Some p"
    and len: "length rs' = length (resources cb)"
    and rp: "resources cb ! nat p = ERes rp"
    and slots: "\<forall>t < length (resources cb).
        rs' ! t =
          (if t \<in> subtree cb s then ENone
           else if t = nat p
             then ERes (rp\<lparr>children_rids := remove1 (int s) (children_rids rp)\<rparr>)
             else resources cb ! t)"
  shows "wf_codebase (cb\<lparr>resources := rs'\<rparr>)"
proof -
  let ?rs = "resources cb"
  let ?S = "subtree cb s"
  let ?rp' = "rp\<lparr>children_rids := remove1 (int s) (children_rids rp)\<rparr>"
  from wf_slotD(4) [OF wf s rs p] have pb: "0 \<le> p" "p < int s" by auto
  have np: "nat p < s" using pb by linarith
  have npl: "nat p < length ?rs" using np s by simp
  have p_notin: "nat p \<notin> ?S" using subtree_bounds [OF wf s rs] np by fastforce
  have live: "\<exists>r'. rs' ! t = ERes r' \<and> pid r' = pid rt \<and> rid r' = rid rt
      \<and> set (children_rids r') = set (children_rids rt) - (if t = nat p then {int s} else {})"
    if t: "t < length ?rs" and rt: "?rs ! t = ERes rt" and nS: "t \<notin> ?S" for t rt
  proof (cases "t = nat p")
    case True
    have "rt = rp" using rt rp True by simp
    moreover have "distinct (children_rids rp)" using wf_slotD(2) [OF wf npl rp] .
    ultimately show ?thesis using slots t nS True by auto
  next
    case False
    then show ?thesis using slots t nS rt by simp
  qed
  have "wf_slot rs' i" if i: "i < length ?rs" for i
  proof (cases "i \<in> ?S")
    case True
    then have "rs' ! i = ENone" using slots i by simp
    then show ?thesis by (simp add: wf_slot_def)
  next
    case nS: False
    show ?thesis
    proof (cases "?rs ! i")
      case ENone
      then have "rs' ! i = ENone" using slots i nS rp by auto
      then show ?thesis by (simp add: wf_slot_def)
    next
      case (EInt k)
      have "wf_slot ?rs i" using wf i by (simp add: wf_codebase_def)
      then show ?thesis using EInt by (simp add: wf_slot_def)
    next
      case (ERes ri)
      define ri' where "ri' = (if i = nat p then ?rp' else ri)"
      have at_i: "rs' ! i = ERes ri'"
        using slots i nS ERes by (simp add: ri'_def)
      have same: "pid ri' = pid ri" "rid ri' = rid ri"
        using ERes rp by (auto simp: ri'_def)
      have kids_sub: "set (children_rids ri') \<subseteq> set (children_rids ri)"
        using ERes rp set_remove1_subset [of "int s" "children_rids rp"] by (auto simp: ri'_def)
      have not_s: "int s \<notin> set (children_rids ri')" if "i = nat p"
        using that wf_slotD(2) [OF wf npl rp] by (simp add: ri'_def)
      have dist: "distinct (children_rids ri')"
        using wf_slotD(2) [OF wf i ERes] wf_slotD(2) [OF wf npl rp] by (simp add: ri'_def)
      show ?thesis
      proof (rule wf_slotI [OF at_i])
        show "rid ri' = int i" using wf_slotD(1) [OF wf i ERes] same by simp
        show "distinct (children_rids ri')" by (rule dist)
        show "int i < c \<and> c < int (length rs')
            \<and> (\<exists>rc. rs' ! nat c = ERes rc \<and> pid rc = Some (int i))"
          if c: "c \<in> set (children_rids ri')" for c
        proof -
          have c0: "c \<in> set (children_rids ri)" using c kids_sub by blast
          from wf_slotD(3) [OF wf i ERes c0] obtain rc
            where b: "int i < c" "c < int (length ?rs)"
              and rc: "?rs ! nat c = ERes rc" "pid rc = Some (int i)" by blast
          have ncl: "nat c < length ?rs" using b by linarith
          have "nat c \<notin> ?S"
          proof
            assume inS: "nat c \<in> ?S"
            show False
            proof (cases "nat c = s")
              case True
              then have "rc = r" using rc rs by simp
              then have "int i = p" using rc p by simp
              then have "i = nat p" by simp
              from not_s [OF this] c True b show False by auto
            next
              case False
              from subtree_parent [OF inS False] obtain u
                where u: "u \<in> ?S" and ut: "(u, nat c) \<in> child_rel cb" by blast
              from child_relD [OF wf ut] rc have "int u = int i" by auto
              then show False using u nS by simp
            qed
          qed
          from live [OF ncl rc(1) this] rc(2) b len show ?thesis by auto
        qed
        show "i = 0" if "pid ri' = None"
          using that same wf_slotD(4) [OF wf i ERes] wf i ERes
          by (auto simp: wf_codebase_def wf_slot_def)
        show "0 \<le> q \<and> q < int i
            \<and> (\<exists>rq. rs' ! nat q = ERes rq \<and> int i \<in> set (children_rids rq))"
          if q: "pid ri' = Some q" for q
        proof -
          have q0: "pid ri = Some q" using q same by simp
          from wf_slotD(4) [OF wf i ERes q0] obtain rq
            where b: "0 \<le> q" "q < int i"
              and rq: "?rs ! nat q = ERes rq" "int i \<in> set (children_rids rq)" by blast
          have nql: "nat q < length ?rs" using b i by linarith
          have "nat q \<notin> ?S"
          proof
            assume inS: "nat q \<in> ?S"
            have "(nat q, nat (int i)) \<in> child_rel cb"
              using child_relI [OF wf nql rq(1) rq(2)] .
            then have "i \<in> ?S" using subtree_step [OF inS] by simp
            then show False using nS by simp
          qed
          from live [OF nql rq(1) this] obtain rq'
            where rq': "rs' ! nat q = ERes rq'"
              and kids: "set (children_rids rq')
                = set (children_rids rq) - (if nat q = nat p then {int s} else {})"
            by blast
          have "int i \<noteq> int s" using nS subtree_self [of s cb] by auto
          then have "int i \<in> set (children_rids rq')" using kids rq(2) by auto
          then show ?thesis using b rq' by blast
        qed
      qed
    qed
  qed
  then show ?thesis using len by (simp add: wf_codebase_def)
qed


lemma remove_resource_keeps_invariant:
  assumes "wf_codebase cb" and "deref cb s = Inr r" and "pid r = Some p"
    and "length (resources cb) \<le> fuel"
  shows "wf_codebase (snd (remove_resource fuel cb s))"
proof -
  from remove_nonroot [OF assms] obtain rids rs' rp
    where res: "remove_resource fuel cb s = (Inr rids, cb\<lparr>resources := rs'\<rparr>)"
      and len: "length rs' = length (resources cb)"
      and rp: "resources cb ! nat p = ERes rp"
      and slots: "\<forall>t < length (resources cb).
          rs' ! t =
            (if t \<in> subtree cb s then ENone
             else if t = nat p
               then ERes (rp\<lparr>children_rids := remove1 (int s) (children_rids rp)\<rparr>)
               else resources cb ! t)"
    by blast
  have s: "s < length (resources cb)" and rs: "resources cb ! s = ERes r"
    using assms(2) by (simp_all add: deref_Inr_iff)
  show ?thesis
    using remove_resource_keeps_wf [OF assms(1) s rs assms(3) len rp slots] res by simp
qed

text \<open>
  C6. \<^verbatim>\<open>remove_resource\<close> on the root raises and leaves the codebase as it
  was. On any other resource of a codebase that satisfies the tree invariant (and with
  a recursion limit of at least the number of slots), it returns handles that are
  exactly the handle of the resource and of all its descendants, sets exactly those
  slots to \<^verbatim>\<open>None\<close>, takes the handle out of the parent's children, where it
  no longer occurs, and leaves every other slot, every other attribute of the parent
  and the length of the node array unchanged.
\<close>

theorem remove_resource_subtree:
  assumes d: "deref cb s = Inr r"
  shows "(pid r = None \<longrightarrow> remove_resource fuel cb s = (Inl RootRemoval, cb))
       \<and> (\<forall>p. pid r = Some p \<and> wf_codebase cb \<and> length (resources cb) \<le> fuel \<longrightarrow>
            (\<exists>rids rs' rp.
               remove_resource fuel cb s = (Inr rids, cb\<lparr>resources := rs'\<rparr>)
               \<and> set rids = int ` subtree cb s
               \<and> length rs' = length (resources cb)
               \<and> resources cb ! nat p = ERes rp
               \<and> int s \<notin> set (remove1 (int s) (children_rids rp))
               \<and> (\<forall>t < length (resources cb).
                     rs' ! t =
                       (if t \<in> subtree cb s then ENone
                        else if t = nat p
                          then ERes (rp\<lparr>children_rids := remove1 (int s) (children_rids rp)\<rparr>)
                          else resources cb ! t))))"
proof (intro conjI allI impI)
  assume "pid r = None"
  then show "remove_resource fuel cb s = (Inl RootRemoval, cb)"
    using d by (simp add: remove_resource_def)
next
  fix p
  assume "pid r = Some p \<and> wf_codebase cb \<and> length (resources cb) \<le> fuel"
  then show "\<exists>rids rs' rp.
      remove_resource fuel cb s = (Inr rids, cb\<lparr>resources := rs'\<rparr>)
      \<and> set rids = int ` subtree cb s
      \<and> length rs' = length (resources cb)
      \<and> resources cb ! nat p = ERes rp
      \<and> int s \<notin> set (remove1 (int s) (children_rids rp))
      \<and> (\<forall>t < length (resources cb).
            rs' ! t =
              (if t \<in> subtree cb s then ENone
               else if t = nat p
                 then ERes (rp\<lparr>children_rids := remove1 (int s) (children_rids rp)\<rparr>)
                 else resources cb ! t))"
    using remove_nonroot [OF _ d, of p fuel] by blast
qed

theorem remove_resource_subtree_witness:
  "deref small_tree 0 = Inr (node ''top'' 0 None False [1, 3] (2, 1, 15))
   \<and> pid (node ''top'' 0 None False [1, 3] (2, 1, 15)) = None
   \<and> remove_resource 4 small_tree 0 = (Inl RootRemoval, small_tree)
   \<and> deref small_tree 1 = Inr (node ''lib'' 1 (Some 0) False [2] (1, 0, 10))
   \<and> pid (node ''lib'' 1 (Some 0) False [2] (1, 0, 10)) = Some 0
   \<and> wf_codebase small_tree
   \<and> length (resources small_tree) \<le> 4
   \<and> remove_resource 4 small_tree 1 =
        (Inr [1, 2],
         small_tree\<lparr>resources :=
           [ERes (node ''top'' 0 None False [3] (2, 1, 15)), ENone, ENone,
            ERes (node ''b.c'' 3 (Some 0) True [] (0, 0, 5))]\<rparr>)
   \<and> int ` subtree small_tree 1 = {1, 2}"
proof -
  let ?top = "node ''top'' 0 None False [1, 3] (2, 1, 15)"
  let ?lib = "node ''lib'' 1 (Some 0) False [2] (1, 0, 10)"
  let ?rs = "[ERes (node ''top'' 0 None False [3] (2, 1, 15)), ENone, ENone,
              ERes (node ''b.c'' 3 (Some 0) True [] (0, 0, 5))]"
  have d0: "deref small_tree 0 = Inr ?top" by code_simp
  have p0: "pid ?top = None" by code_simp
  have r0: "remove_resource 4 small_tree 0 = (Inl RootRemoval, small_tree)"
    using remove_resource_subtree [OF d0, of 4] p0 by blast
  have d1: "deref small_tree 1 = Inr ?lib" by code_simp
  have p1: "pid ?lib = Some 0" by code_simp
  have wf: "wf_codebase small_tree" by code_simp
  have len: "length (resources small_tree) \<le> 4" by code_simp
  have ev: "remove_resource 4 small_tree 1 = (Inr [1, 2], small_tree\<lparr>resources := ?rs\<rparr>)"
    by code_simp
  from remove_resource_subtree [OF d1, of 4] p1 wf len obtain rids rs'
    where res: "remove_resource 4 small_tree 1 = (Inr rids, small_tree\<lparr>resources := rs'\<rparr>)"
      and sub: "set rids = int ` subtree small_tree 1"
    by blast
  from res ev have "rids = [1, 2]" by simp
  with sub have "int ` subtree small_tree 1 = set [1, 2]" by simp
  then have "int ` subtree small_tree 1 = {1, 2}" by simp
  then show ?thesis using d0 p0 r0 d1 p1 wf len ev by simp
qed

subsection \<open>The hashing pass\<close>

lemma map_sort_key: "map f (sort_key f xs) = sort (map f xs)"
  by (rule sym, rule properties_for_sort) simp_all

lemma sort_mset_cong: "mset xs = mset ys \<Longrightarrow> sort xs = sort ys"
  by (rule properties_for_sort) simp_all

lemma fold_files_eq:
  "fold_files fed fs =
     (if None \<in> set (map sha1 fs) then Inl TypeError
      else Inr (fed @ concat (map the (map sha1 fs))))"
  by (induction fs arbitrary: fed) (auto simp: update_sha1_def split: option.splits)

lemma hash_files_eq:
  "hash_files fs =
     (if None \<in> set (map sha1 fs) then Inl TypeError
      else Inr (concat (map the (sort (map sha1 fs)))))"
  by (simp add: hash_files_def fold_files_eq map_sort_key del: set_map map_map)

lemma fold_digests: "fold (\<lambda>hash acc. acc @ H hash) hs fed = fed @ concat (map H hs)"
  by (induction hs arbitrary: fed) simp_all

lemma set_data_fields:
  "dirs (((objs h)[d := (objs h ! d)\<lparr>data := r\<rparr>]) ! x) = dirs (objs h ! x)"
  "files (((objs h)[d := (objs h ! d)\<lparr>data := r\<rparr>]) ! x) = files (objs h ! x)"
proof -
  show "dirs (((objs h)[d := (objs h ! d)\<lparr>data := r\<rparr>]) ! x) = dirs (objs h ! x)"
  proof (cases "d < length (objs h)")
    case True
    then show ?thesis by (cases "x = d") simp_all
  next
    case False
    then have "(objs h)[d := (objs h ! d)\<lparr>data := r\<rparr>] = objs h"
      by (simp add: list_update_beyond)
    then show ?thesis by simp
  qed
  show "files (((objs h)[d := (objs h ! d)\<lparr>data := r\<rparr>]) ! x) = files (objs h ! x)"
  proof (cases "d < length (objs h)")
    case True
    then show ?thesis by (cases "x = d") simp_all
  next
    case False
    then have "(objs h)[d := (objs h ! d)\<lparr>data := r\<rparr>] = objs h"
      by (simp add: list_update_beyond)
    then show ?thesis by simp
  qed
qed

lemma set_data_shape:
  "dir_dirs (h\<lparr>objs := (objs h)[d := (objs h ! d)\<lparr>data := r\<rparr>]\<rparr>) x = dir_dirs h x"
  "dir_files (h\<lparr>objs := (objs h)[d := (objs h ! d)\<lparr>data := r\<rparr>]\<rparr>) x = dir_files h x"
  by (simp_all add: dir_dirs_def dir_files_def set_data_fields)

lemma merkle_step_eq:
  assumes "hash_files fs = Inr fed"
  shows "merkle_step H hash_stack ds fs =
           Inr (if ds \<noteq> [] then fed @ concat (sort (map H hash_stack)) else fed,
                if ds \<noteq> [] then [] else hash_stack @ [fed])"
  using assms by (simp add: merkle_step_def fold_digests map_sort_key)


lemma hash_pass_append:
  "hash_pass H h st (xs @ ys) =
     (case hash_pass H h st xs of
        Inl e \<Rightarrow> Inl e
      | Inr (h1, st1, out1) \<Rightarrow>
          (case hash_pass H h1 st1 ys of
             Inl e \<Rightarrow> Inl e
           | Inr (h2, st2, out2) \<Rightarrow> Inr (h2, st2, out1 @ out2)))"
proof (induction xs arbitrary: h st)
  case Nil
  show ?case by (cases "hash_pass H h st ys") auto
next
  case (Cons x xs)
  show ?case
  proof (cases "merkle_step H st (dir_dirs h x) (dir_files h x)")
    case (Inl e)
    then show ?thesis by simp
  next
    case (Inr a)
    obtain fed st' where a: "a = (fed, st')" by (cases a)
    let ?rec = "(data (objs h ! x))\<lparr>sha1 := Some (H fed)\<rparr>"
    let ?h' = "h\<lparr>objs := (objs h)[x := (objs h ! x)\<lparr>data := ?rec\<rparr>]\<rparr>"
    show ?thesis
    proof (cases "hash_pass H ?h' st' xs")
      case (Inl e)
      then show ?thesis using Inr a by (simp add: Cons.IH Let_def)
    next
      case r1: (Inr b)
      obtain h1 st1 out1 where b: "b = (h1, st1, out1)" by (cases b)
      show ?thesis
      proof (cases "hash_pass H h1 st1 ys")
        case (Inl e)
        then show ?thesis using Inr a r1 b by (simp add: Cons.IH Let_def)
      next
        case r2: (Inr c)
        obtain h2 st2 out2 where c: "c = (h2, st2, out2)" by (cases c)
        show ?thesis using Inr a r1 b r2 c by (simp add: Cons.IH Let_def)
      qed
    qed
  qed
qed


lemma hash_pass_total:
  "\<forall>x \<in> set ds. None \<notin> set (map sha1 (dir_files h x))
   \<Longrightarrow> \<exists>h' st' out. hash_pass H h st ds = Inr (h', st', out)
         \<and> (\<forall>x. dir_dirs h' x = dir_dirs h x \<and> dir_files h' x = dir_files h x)"
proof (induction ds arbitrary: h st)
  case Nil
  then show ?case by simp
next
  case (Cons d ds)
  have "None \<notin> set (map sha1 (dir_files h d))" using Cons.prems by simp
  then obtain fed where fed: "hash_files (dir_files h d) = Inr fed"
    by (simp add: hash_files_eq)
  define fed' where "fed' = (if dir_dirs h d \<noteq> [] then fed @ concat (sort (map H st)) else fed)"
  define st' where "st' = (if dir_dirs h d \<noteq> [] then [] else st @ [fed])"
  define rec where "rec = (data (objs h ! d))\<lparr>sha1 := Some (H fed')\<rparr>"
  define h' where "h' = h\<lparr>objs := (objs h)[d := (objs h ! d)\<lparr>data := rec\<rparr>]\<rparr>"
  have shape: "dir_dirs h' x = dir_dirs h x" "dir_files h' x = dir_files h x" for x
    unfolding h'_def by (rule set_data_shape)+
  have "\<forall>x \<in> set ds. None \<notin> set (map sha1 (dir_files h' x))"
    using Cons.prems by (simp only: shape) simp
  from Cons.IH [OF this] obtain h'' st'' out
    where r: "hash_pass H h' st' ds = Inr (h'', st'', out)"
      and sh: "\<forall>x. dir_dirs h'' x = dir_dirs h' x \<and> dir_files h'' x = dir_files h' x"
    by blast
  have step: "merkle_step H st (dir_dirs h d) (dir_files h d) = Inr (fed', st')"
    unfolding fed'_def st'_def by (rule merkle_step_eq [OF fed])
  have "hash_pass H h st (d # ds)
      = Inr (h'', st'', sort_key sha1 (dir_files h d) @ [rec] @ out)"
    using r by (simp add: step Let_def rec_def [symmetric] h'_def [symmetric])
  moreover have "\<forall>x. dir_dirs h'' x = dir_dirs h x \<and> dir_files h'' x = dir_files h x"
    using sh by (simp only: shape) simp
  ultimately show ?case by blast
qed


text \<open>
  C7. In the single post-order pass of \<^verbatim>\<open>build_merkle_tree\<close> over the tree that
  \<^verbatim>\<open>build_tree\<close> returns, for every directory \<open>d\<close> that the walk visits
  (with the directories \<open>pre\<close> visited before it and \<open>post\<close> after it, and no
  file without a hash): the pass reaches \<open>d\<close> with the pending list that the
  directories before it have left; if \<open>d\<close> has a child directory, the digests of
  the pending list are appended to the text hashed for \<open>d\<close>, after its files, in
  ascending order of their value, and the pending list is empty afterwards, \<open>d\<close>
  not being pushed; if it has none, nothing is appended and the hash object of \<open>d\<close>
  is pushed at the end of the pending list. The digest of that text is stored in the
  record of \<open>d\<close>, which \<^verbatim>\<open>build_merkle_tree\<close> yields after the files of
  \<open>d\<close>.
\<close>

theorem pending_list_folding:
  assumes tree: "build_tree fuel results = Some (Inr (root', h))"
    and walk: "postorder_walk fuel h root' = Inr (pre @ d # post)"
    and hashed: "\<forall>x \<in> set (pre @ d # post). None \<notin> set (map sha1 (dir_files h x))"
  shows "\<exists>h1 pending out1 fed out3.
      hash_pass H h [] pre = Inr (h1, pending, out1)
      \<and> hash_files (dir_files h d) = Inr fed
      \<and> (let rec = (data (objs h1 ! d))
                \<lparr>sha1 := Some (H (if dir_dirs h d \<noteq> []
                                    then fed @ concat (sort (map H pending)) else fed))\<rparr>
         in hash_pass H h [] (pre @ [d]) =
              Inr (h1\<lparr>objs := (objs h1)[d := (objs h1 ! d)\<lparr>data := rec\<rparr>]\<rparr>,
                   if dir_dirs h d \<noteq> [] then [] else pending @ [fed],
                   out1 @ sort_key sha1 (dir_files h d) @ [rec])
            \<and> build_merkle_tree H fuel results =
              Some (Inr (out1 @ sort_key sha1 (dir_files h d) @ [rec] @ out3)))"
proof -
  have "\<forall>x \<in> set pre. None \<notin> set (map sha1 (dir_files h x))" using hashed by simp
  from hash_pass_total [OF this] obtain h1 pending out1
    where p1: "hash_pass H h [] pre = Inr (h1, pending, out1)"
      and sh1: "\<forall>x. dir_dirs h1 x = dir_dirs h x \<and> dir_files h1 x = dir_files h x"
    by blast
  have "None \<notin> set (map sha1 (dir_files h d))" using hashed by simp
  then obtain fed where fed: "hash_files (dir_files h d) = Inr fed"
    by (simp add: hash_files_eq)
  define fed' where "fed' = (if dir_dirs h d \<noteq> [] then fed @ concat (sort (map H pending)) else fed)"
  define st' where "st' = (if dir_dirs h d \<noteq> [] then [] else pending @ [fed])"
  define rec where "rec = (data (objs h1 ! d))\<lparr>sha1 := Some (H fed')\<rparr>"
  define h2 where "h2 = h1\<lparr>objs := (objs h1)[d := (objs h1 ! d)\<lparr>data := rec\<rparr>]\<rparr>"
  have sh2: "dir_dirs h2 x = dir_dirs h x" "dir_files h2 x = dir_files h x" for x
    unfolding h2_def using sh1 by (simp_all only: set_data_shape)
  have step: "merkle_step H pending (dir_dirs h d) (dir_files h d) = Inr (fed', st')"
    unfolding fed'_def st'_def by (rule merkle_step_eq [OF fed])
  have one: "hash_pass H h1 pending [d] = Inr (h2, st', sort_key sha1 (dir_files h d) @ [rec])"
    using sh1 by (simp add: step Let_def rec_def [symmetric] h2_def [symmetric])
  have upto: "hash_pass H h [] (pre @ [d])
      = Inr (h2, st', out1 @ sort_key sha1 (dir_files h d) @ [rec])"
    by (simp only: hash_pass_append p1 one sum.case prod.case)
  have "\<forall>x \<in> set post. None \<notin> set (map sha1 (dir_files h2 x))"
    using hashed by (simp only: sh2) simp
  from hash_pass_total [OF this] obtain h3 st3 out3
    where p3: "hash_pass H h2 st' post = Inr (h3, st3, out3)" by blast
  have "pre @ d # post = (pre @ [d]) @ post" by simp
  then have all: "hash_pass H h [] (pre @ d # post)
      = Inr (h3, st3, (out1 @ sort_key sha1 (dir_files h d) @ [rec]) @ out3)"
    by (simp only: hash_pass_append [of H h "[]" "pre @ [d]" post] upto p3 sum.case prod.case)
  have bm: "build_merkle_tree H fuel results
      = Some (Inr (out1 @ sort_key sha1 (dir_files h d) @ [rec] @ out3))"
    using tree walk all by (simp add: build_merkle_tree_def)
  show ?thesis
    apply (rule exI [of _ h1], rule exI [of _ pending], rule exI [of _ out1])
    apply (rule exI [of _ fed], rule exI [of _ out3])
    using p1 fed upto bm
    by (simp add: Let_def rec_def fed'_def st'_def h2_def)
qed

theorem pending_list_folding_witness:
  "build_tree 10 [rec_by, rec_ax] = Some (Inr (0, two_level_heap))
   \<and> postorder_walk 10 two_level_heap 0 = Inr ([1] @ 0 # [])
   \<and> None \<notin> set (map sha1 (dir_files two_level_heap 1))
   \<and> None \<notin> set (map sha1 (dir_files two_level_heap 0))
   \<and> dir_dirs two_level_heap 0 = [1]
   \<and> map_sum id snd (hash_pass rev two_level_heap [] [1]) =
        Inr ([''12''], [rec_by, \<lparr>path = ''a/b'', ftype = ''directory'', sha1 = Some ''21''\<rparr>])
   \<and> map_sum id snd (hash_pass rev two_level_heap [] ([1] @ [0])) =
        Inr ([], [rec_by, \<lparr>path = ''a/b'', ftype = ''directory'', sha1 = Some ''21''\<rparr>,
                  rec_ax, \<lparr>path = ''a'', ftype = ''directory'', sha1 = Some ''1211''\<rparr>])
   \<and> (\<exists>out3. build_merkle_tree rev 10 [rec_by, rec_ax] =
          Some (Inr ([rec_by, \<lparr>path = ''a/b'', ftype = ''directory'', sha1 = Some ''21''\<rparr>,
                      rec_ax,
                      \<lparr>path = ''a'', ftype = ''directory'',
                         sha1 = Some (rev (''11'' @ concat (sort (map rev [''12'']))))\<rparr>]
                     @ out3)))"
proof -
  have t: "build_tree 10 [rec_by, rec_ax] = Some (Inr (0, two_level_heap))" by code_simp
  have w: "postorder_walk 10 two_level_heap 0 = Inr ([1] @ 0 # [])" by code_simp
  have n1: "None \<notin> set (map sha1 (dir_files two_level_heap 1))" by code_simp
  have n0: "None \<notin> set (map sha1 (dir_files two_level_heap 0))" by code_simp
  have hashed: "\<forall>x \<in> set ([1] @ 0 # []). None \<notin> set (map sha1 (dir_files two_level_heap x))"
    using n1 n0 by simp
  have dd: "dir_dirs two_level_heap 0 = [1]" by code_simp
  have fs: "sort_key sha1 (dir_files two_level_heap 0) = [rec_ax]" by code_simp
  have e1: "map_sum id snd (hash_pass rev two_level_heap [] [1]) =
      Inr ([''12''], [rec_by, \<lparr>path = ''a/b'', ftype = ''directory'', sha1 = Some ''21''\<rparr>])"
    by code_simp
  have e1d: "map_sum id (\<lambda>r. data (objs (fst r) ! 0)) (hash_pass rev two_level_heap [] [1]) =
      Inr \<lparr>path = ''a'', ftype = ''directory'', sha1 = None\<rparr>"
    by code_simp
  have e2: "map_sum id snd (hash_pass rev two_level_heap [] ([1] @ [0])) =
      Inr ([], [rec_by, \<lparr>path = ''a/b'', ftype = ''directory'', sha1 = Some ''21''\<rparr>,
                rec_ax, \<lparr>path = ''a'', ftype = ''directory'', sha1 = Some ''1211''\<rparr>])"
    by code_simp
  have e3: "hash_files (dir_files two_level_heap 0) = Inr ''11''" by code_simp
  from pending_list_folding [OF t w hashed, of rev] obtain h1 pending out1 fed out3
    where a: "hash_pass rev two_level_heap [] [1] = Inr (h1, pending, out1)"
      and b: "hash_files (dir_files two_level_heap 0) = Inr fed"
      and c: "build_merkle_tree rev 10 [rec_by, rec_ax] =
          Some (Inr (out1 @ sort_key sha1 (dir_files two_level_heap 0)
            @ [(data (objs h1 ! 0))\<lparr>sha1 := Some (rev (fed @ concat (sort (map rev pending))))\<rparr>]
            @ out3))"
    unfolding Let_def dd by auto
  from a e1 have pend: "pending = [''12'']"
    and out1: "out1 = [rec_by, \<lparr>path = ''a/b'', ftype = ''directory'', sha1 = Some ''21''\<rparr>]"
    by simp_all
  from a e1d have dat: "data (objs h1 ! 0) = \<lparr>path = ''a'', ftype = ''directory'', sha1 = None\<rparr>"
    by simp
  from b e3 have fed: "fed = ''11''" by simp
  have last: "\<exists>out3. build_merkle_tree rev 10 [rec_by, rec_ax] =
      Some (Inr ([rec_by, \<lparr>path = ''a/b'', ftype = ''directory'', sha1 = Some ''21''\<rparr>,
                  rec_ax,
                  \<lparr>path = ''a'', ftype = ''directory'',
                     sha1 = Some (rev (''11'' @ concat (sort (map rev [''12'']))))\<rparr>]
                 @ out3))"
    using c by (intro exI [of _ out3]) (simp add: pend out1 dat fed fs)
  show ?thesis
    using t w n1 n0 dd e1 e2 last by (intro conjI)
qed

text \<open>
  The fold over the files of one directory depends on the files as a multiset only,
  since they are sorted by their hash before they are folded.
\<close>

lemma hash_files_mset:
  assumes "mset fs = mset fs'"
  shows "hash_files fs = hash_files fs'"
proof -
  have "mset (map sha1 fs) = mset (map sha1 fs')" using assms by (metis mset_map)
  then have "sort (map sha1 fs) = sort (map sha1 fs')" by (rule sort_mset_cong)
  moreover have "set (map sha1 fs) = set (map sha1 fs')"
    using assms by (metis mset_eq_setD set_map)
  ultimately show ?thesis by (simp only: hash_files_eq)
qed

lemma merkle_step_mset:
  "mset fs = mset fs' \<Longrightarrow> merkle_step H hash_stack ds fs = merkle_step H hash_stack ds fs'"
  by (simp add: merkle_step_def hash_files_mset [of fs fs'])

text \<open>
  C8 fails on the code, for the files of a directory that the stream names two or
  more levels below any directory it has named. The two records \<open>rec_y\<close> and
  \<open>rec_z\<close> lie in \<^verbatim>\<open>a/b/c\<close>. \<^verbatim>\<open>build_tree\<close> attaches the first of them
  to \<^verbatim>\<open>a/b\<close>, the last placeholder its inner loop has bound to \<^verbatim>\<open>parent\<close>,
  and the second to the placeholder \<^verbatim>\<open>a/b/c\<close>, which is in no directory's list.
  So the digest of \<^verbatim>\<open>a/b\<close> (and of \<^verbatim>\<open>a\<close>) is computed from the record that
  comes first, and the other record is not yielded at all, for every digest function
  \<open>H\<close>.
\<close>

theorem digest_depends_on_stream_order:
  "build_merkle_tree H 10 [rec_y, rec_z] =
     Some (Inr [rec_y,
                \<lparr>path = ''a/b'', ftype = ''directory'', sha1 = Some (H ''22'')\<rparr>,
                \<lparr>path = ''a'', ftype = ''directory'', sha1 = Some (H (H ''22''))\<rparr>])
   \<and> build_merkle_tree H 10 [rec_z, rec_y] =
     Some (Inr [rec_z,
                \<lparr>path = ''a/b'', ftype = ''directory'', sha1 = Some (H ''33'')\<rparr>,
                \<lparr>path = ''a'', ftype = ''directory'', sha1 = Some (H (H ''33''))\<rparr>])"
  by code_simp

subsection \<open>build_tree\<close>

lemmas path_defs = strip_slash_def parent_directory_def rstrip_slash_def

lemmas heap_defs = dir_eq_def dir_path_def dir_dirs_def dir_files_def link_dir_def
  create_empty_dir_def Dir_def empty_heap_def

lemma stuck_step:
  "attach_ancestors (Suc n) 0 (stuck_heap, [(''a'', 0), ([], Suc 0)], Suc 0, Suc 0)
   = attach_ancestors n 0 (stuck_heap, [(''a'', 0), ([], Suc 0)], Suc 0, Suc 0)"
  by (simp add: stuck_heap_def path_defs heap_defs Let_def)

lemma stuck_forever:
  "attach_ancestors n 0 (stuck_heap, [(''a'', 0), ([], Suc 0)], Suc 0, Suc 0) = None"
  by (induction n) (simp_all only: attach_ancestors.simps(1) stuck_step)

lemma first_step:
  "attach_ancestors (Suc n) 0
     (\<lparr>objs = [\<lparr>data = \<lparr>path = ''a'', ftype = ''directory'', sha1 = None\<rparr>, dirs = 0, files = 0\<rparr>,
              \<lparr>data = \<lparr>path = [], ftype = ''directory'', sha1 = None\<rparr>,
                 dirs = Suc 0, files = Suc 0\<rparr>],
       dlists = [[], []], flists = [[], []]\<rparr>, [(''a'', 0), ([], Suc 0)], Suc 0, Suc 0)
   = attach_ancestors n 0 (stuck_heap, [(''a'', 0), ([], Suc 0)], Suc 0, Suc 0)"
  by (simp add: stuck_heap_def path_defs heap_defs Let_def)

text \<open>
  C9. On the empty collection \<^verbatim>\<open>build_tree\<close> raises \<^verbatim>\<open>IndexError\<close> at
  \<^verbatim>\<open>results[0]\<close>, before it has created any node. On the collection that holds
  the record of the top-level directory \<^verbatim>\<open>a\<close> alone it does not return, whatever
  the bound on its inner loop: the parent path of \<^verbatim>\<open>a\<close> is the empty path, the
  placeholder made for it is not the root, and the parent path of the empty path is
  the empty path again, so that the loop walks from the placeholder to itself for ever.
\<close>

theorem build_tree_empty_and_top_level:
  "build_tree fuel [] = Some (Inl IndexError) \<and> build_tree fuel [rec_a] = None"
proof (cases fuel)
  case 0
  then show ?thesis
    by (simp add: build_tree_def add_record_def rec_a_def path_defs heap_defs Let_def)
next
  case (Suc n)
  then show ?thesis
    by (simp add: build_tree_def add_record_def rec_a_def path_defs heap_defs Let_def
        first_step stuck_forever del: attach_ancestors.simps)
qed

end
